theory Spec2Isabelle
  imports Main "HOL-Library.Word" "HOL-Library.Sublist"
begin

section \<open>The mesh cache of utymap (core/src/builders/MeshCache.cpp)\<close>

text \<open>
  The cache mirrors what a tile builder emits through two callbacks into a binary file and
  replays that file later. The embedding below follows the C++ statement by statement.
  Everything the code mutates is explicit state:
  \<^item> the file system, as a map from paths to byte contents, with a predicate telling which
    paths can be opened for appending;
  \<^item> the \<^verbatim>\<open>std::fstream\<close> objects the cache allocates with \<^verbatim>\<open>std::make_shared\<close>, as a heap
    from addresses to stream states: a stream that is destroyed leaves the heap, and using
    a reference to it afterwards is undefined behaviour;
  \<^item> the \<^verbatim>\<open>BuilderContext\<close> objects of the caller, as the set of addresses that are alive:
    the interceptor captures the caller's callback by reference;
  \<^item> the state of whoever consumes the callbacks.
  The mutex is not modelled: every operation runs alone. A stream is buffered: the bytes
  written to it are pending in the stream until it hands them to its file, which it does
  at the latest when it is closed or destroyed, and earlier as far as the implementation
  of the stream decides.
\<close>

subsection \<open>Bytes, tags and the identifier field\<close>

type_synonym byte = "8 word"

text \<open>\<^verbatim>\<open>const char ElementType = 0; const char MeshType = 1;\<close>\<close>

definition ElementType :: byte where
  "ElementType = 0"

definition MeshType :: byte where
  "MeshType = 1"

text \<open>
  \<^verbatim>\<open>stream.write(reinterpret_cast<const char*>(&element.id), sizeof(element.id))\<close> writes the
  eight bytes of the identifier as they lie in memory; \<^verbatim>\<open>file.read\<close> reads them back the
  same way. The target is taken to be little-endian.
\<close>

definition id_bytes :: "64 word \<Rightarrow> byte list" where
  "id_bytes w = map (\<lambda>i. ucast (drop_bit (8 * i) w)) [0..<8]"

definition id_of_bytes :: "byte list \<Rightarrow> 64 word" where
  "id_of_bytes bs = foldr (\<lambda>b acc. or (ucast b) (push_bit 8 acc)) bs 0"

text \<open>
  \<^verbatim>\<open>file >> type\<close> with a \<^verbatim>\<open>char\<close> is formatted input: the stream keeps its default
  \<^verbatim>\<open>skipws\<close> flag (opening in binary mode does not clear it), so leading white space of the
  classic locale is skipped before the character is extracted.
\<close>

definition is_space :: "byte \<Rightarrow> bool" where
  "is_space b = (b = 9 \<or> b = 10 \<or> b = 11 \<or> b = 12 \<or> b = 13 \<or> b = 32)"

definition read_tag :: "byte list \<Rightarrow> (byte \<times> byte list) option" where
  "read_tag buf = (case dropWhile is_space buf of [] \<Rightarrow> None | c # rest \<Rightarrow> Some (c, rest))"

definition read_id :: "byte list \<Rightarrow> (64 word \<times> byte list) option" where
  "read_id buf = (if length buf < 8 then None else Some (id_of_bytes (take 8 buf), drop 8 buf))"

subsection \<open>Errors\<close>

text \<open>
  \<open>InvalidArgument\<close> is the \<^verbatim>\<open>std::invalid_argument\<close> thrown by the reader.
  \<open>UndefinedBehaviour\<close> stands for what C++ leaves undefined: a call through a reference to
  an object that was destroyed, and the use of the identifier after a short read left it
  uninitialised.
\<close>

datatype error = InvalidArgument string | UndefinedBehaviour

definition seq :: "error + 'a \<Rightarrow> ('a \<Rightarrow> error + 'b) \<Rightarrow> error + 'b" where
  "seq r f = (case r of Inl e \<Rightarrow> Inl e | Inr x \<Rightarrow> f x)"

subsection \<open>Streams, files and the world\<close>

record fstream =
  spath :: string
  is_open :: bool
  good :: bool
  pending :: "byte list"

text \<open>
  \<open>files\<close> is what is on disk. \<open>flush_policy w p n\<close> is the part of the implementation of
  the stream the standard leaves open: how many of the bytes a stream holds after a write
  of \<open>n\<close> bytes on top of \<open>p\<close> pending ones it hands to the file at that write (all of
  them for an unbuffered stream, none while they fit the buffer). \<open>removable\<close> tells
  whether the file system lets the file at a path be removed.
\<close>

record 'c world =
  files :: "string \<rightharpoonup> byte list"
  writable :: "string \<Rightarrow> bool"
  removable :: "string \<Rightarrow> bool"
  flush_policy :: "nat \<Rightarrow> nat \<Rightarrow> nat"
  streams :: "nat \<rightharpoonup> fstream"
  next_stream :: nat
  live_contexts :: "nat set"
  consumer :: 'c

text \<open>\<^verbatim>\<open>std::ifstream(filePath).good()\<close>: the file can be opened for reading.\<close>

definition ifstream_good :: "'c world \<Rightarrow> string \<Rightarrow> bool" where
  "ifstream_good w filePath = (files w filePath \<noteq> None)"

text \<open>
  \<^verbatim>\<open>file->open(filePath, out | binary | app | ate)\<close>: mode \<^verbatim>\<open>"ab"\<close>. It creates the file when
  it is missing and leaves the stream failed when the path cannot be opened.
\<close>

definition open_append :: "string \<Rightarrow> 'c world \<Rightarrow> fstream \<times> 'c world" where
  "open_append filePath w =
     (if writable w filePath
      then (\<lparr>spath = filePath, is_open = True, good = True, pending = []\<rparr>,
            w\<lparr>files := (files w)(filePath \<mapsto>
                 (case files w filePath of None \<Rightarrow> [] | Some old \<Rightarrow> old))\<rparr>)
      else (\<lparr>spath = filePath, is_open = False, good = False, pending = []\<rparr>, w))"

text \<open>
  Bytes leave a stream for its file: they are appended to the file the stream was opened
  on (bytes for a file that was removed meanwhile are lost).
\<close>

definition write_out :: "string \<Rightarrow> byte list \<Rightarrow> 'c world \<Rightarrow> 'c world" where
  "write_out filePath bs w =
     (if bs = [] then w
      else case files w filePath of
             None \<Rightarrow> w
           | Some old \<Rightarrow> w\<lparr>files := (files w)(filePath \<mapsto> old @ bs)\<rparr>)"

text \<open>
  Output through a reference to the stream at address \<open>a\<close>. A failed stream ignores the
  write; a closed one fails on it; an open one takes the bytes behind those it has pending
  and hands to its file as many of them, from the front, as the implementation decides.
\<close>

definition stream_write :: "nat \<Rightarrow> byte list \<Rightarrow> 'c world \<Rightarrow> error + 'c world" where
  "stream_write a bs w =
     (case streams w a of
        None \<Rightarrow> Inl UndefinedBehaviour
      | Some s \<Rightarrow>
          if \<not> good s then Inr w
          else if \<not> is_open s then
            Inr (if bs = [] then w else w\<lparr>streams := (streams w)(a \<mapsto> s\<lparr>good := False\<rparr>)\<rparr>)
          else
            (let buffered = pending s @ bs;
                 n = min (flush_policy w (length (pending s)) (length bs)) (length buffered)
             in Inr (write_out (spath s) (take n buffered)
                       (w\<lparr>streams := (streams w)(a \<mapsto> s\<lparr>pending := drop n buffered\<rparr>)\<rparr>))))"

definition stream_good :: "'c world \<Rightarrow> nat \<Rightarrow> bool" where
  "stream_good w a = (case streams w a of None \<Rightarrow> False | Some s \<Rightarrow> good s)"

text \<open>
  \<^verbatim>\<open>close()\<close> hands the pending bytes to the file; closing a stream that is not open sets
  its fail bit.
\<close>

definition stream_close :: "nat \<Rightarrow> 'c world \<Rightarrow> 'c world" where
  "stream_close a w =
     (case streams w a of
        None \<Rightarrow> w
      | Some s \<Rightarrow>
          if is_open s
          then write_out (spath s) (pending s)
                 (w\<lparr>streams := (streams w)(a \<mapsto> s\<lparr>is_open := False, pending := []\<rparr>)\<rparr>)
          else w\<lparr>streams := (streams w)(a \<mapsto> s\<lparr>good := False\<rparr>)\<rparr>)"

text \<open>
  \<^verbatim>\<open>std::remove(path)\<close>. A call that fails leaves the file; the code drops the result of the
  call, so the model returns the world only.
\<close>

definition std_remove :: "string \<Rightarrow> 'c world \<Rightarrow> 'c world" where
  "std_remove filePath w =
     (if removable w filePath then w\<lparr>files := (files w)(filePath := None)\<rparr> else w)"

text \<open>
  The last \<^verbatim>\<open>shared_ptr\<close> to a stream goes away: the stream is destroyed, and its destructor
  closes it if it is still open.
\<close>

definition destroy_stream :: "nat \<Rightarrow> 'c world \<Rightarrow> 'c world" where
  "destroy_stream a w =
     (let w1 = (case streams w a of
                  None \<Rightarrow> w
                | Some s \<Rightarrow> if is_open s then write_out (spath s) (pending s) w else w)
      in w1\<lparr>streams := (streams w1)(a := None)\<rparr>)"

text \<open>
  The world \<open>w\<close> with the stream \<open>s\<close> at address \<open>a\<close>, \<open>disk\<close> in its file and \<open>buf\<close> pending
  in it.
\<close>

definition session_state ::
  "'c world \<Rightarrow> nat \<Rightarrow> fstream \<Rightarrow> byte list \<Rightarrow> byte list \<Rightarrow> 'c world" where
  "session_state w a s disk buf =
     w\<lparr>files := (files w)(spath s \<mapsto> disk), streams := (streams w)(a \<mapsto> s\<lparr>pending := buf\<rparr>)\<rparr>"

subsection \<open>Builder contexts, callbacks and the collaborators\<close>

text \<open>
  A callback is either the pipeline's own consumer or the lambda built by the cache,
  \<^verbatim>\<open>[&stream, &callback](const Mesh& mesh) {...}\<close>, which holds two references: the address
  of the stream, and the callback member of the caller's context. The latter is kept as the
  address of that context together with the callback it denotes while the context lives
  (a context never changes its callbacks). The pipeline's own callbacks act on the state
  of the consumer only: they are taken neither to change the cache files nor to call the
  cache. One that looks at the files on disk when it runs is \<open>Observing\<close>; \<open>Plain\<close> is one
  that does not.
\<close>

datatype ('v, 'c) callback =
    Plain "'v \<Rightarrow> 'c \<Rightarrow> 'c"
  | Observing "'v \<Rightarrow> (string \<rightharpoonup> byte list) \<Rightarrow> 'c \<Rightarrow> 'c"
  | Intercept nat nat "('v, 'c) callback"

record 'p Element =
  elem_id :: "64 word"
  payload :: 'p

record StyleProvider =
  getTag :: string

record ('q, 'm, 'p, 'c) BuilderContext =
  quadKey :: 'q
  styleProvider :: StyleProvider
  stringTable :: nat
  eleProvider :: nat
  meshCallback :: "('m, 'c) callback"
  elementCallback :: "('p Element, 'c) callback"

text \<open>
  What the file uses and does not define: the level of detail and the string form of a
  quadkey, and the codecs of \<^verbatim>\<open>MeshStream\<close> and \<^verbatim>\<open>ElementStream\<close>. A codec writes a value as
  bytes; reading yields a value and the number of bytes it took from the stream (taking
  more than there is leaves the stream at its end, failed). \<^verbatim>\<open>ElementStream::read\<close> returns a
  pointer that \<^verbatim>\<open>readCache\<close> dereferences: it is taken to point to an element.
\<close>

record ('q, 'm, 'p) collaborators =
  levelOfDetail :: "'q \<Rightarrow> 32 word"
  quadKeyToString :: "'q \<Rightarrow> string"
  MeshStream_write :: "'m \<Rightarrow> byte list"
  MeshStream_read :: "byte list \<Rightarrow> 'm \<times> nat"
  ElementStream_write :: "'p Element \<Rightarrow> byte list"
  ElementStream_read :: "64 word \<Rightarrow> byte list \<Rightarrow> 'p Element \<times> nat"

text \<open>A cancellation token is polled: \<open>tok k\<close> is the answer to the \<open>k\<close>-th poll of a call.\<close>

type_synonym CancellationToken = "nat \<Rightarrow> bool"

definition isCancelled :: "CancellationToken \<Rightarrow> nat \<Rightarrow> bool" where
  "isCancelled tok k = tok k"

subsection \<open>The registry: a \<^verbatim>\<open>std::map\<close> from quadkeys to streams\<close>

definition map_find :: "('k \<times> 'v) list \<Rightarrow> 'k \<Rightarrow> 'v option" where
  "map_find m k = map_of m k"

text \<open>\<^verbatim>\<open>insert\<close> leaves the map as it is when the key is present.\<close>

definition map_insert :: "('k \<times> 'v) list \<Rightarrow> 'k \<times> 'v \<Rightarrow> ('k \<times> 'v) list" where
  "map_insert m kv = (if map_find m (fst kv) = None then m @ [kv] else m)"

definition map_erase :: "('k \<times> 'v) list \<Rightarrow> 'k \<Rightarrow> ('k \<times> 'v) list" where
  "map_erase m k = filter (\<lambda>kv. fst kv \<noteq> k) m"

record 'q MeshCacheImpl =
  dataPath :: string
  cachingQuads :: "('q \<times> nat) list"

definition MeshCacheImpl_new :: "string \<Rightarrow> 'q MeshCacheImpl" where
  "MeshCacheImpl_new directory = \<lparr>dataPath = directory, cachingQuads = []\<rparr>"

subsection \<open>Path of a cache file\<close>

definition digit_char :: "nat \<Rightarrow> char" where
  "digit_char d = ''0123456789'' ! d"

fun show_nat :: "nat \<Rightarrow> string" where
  "show_nat n = (if n < 10 then [digit_char n] else show_nat (n div 10) @ [digit_char (n mod 10)])"

declare show_nat.simps [simp del]

definition show_int :: "int \<Rightarrow> string" where
  "show_int i = (if i < 0 then CHR ''-'' # show_nat (nat (- i)) else show_nat (nat i))"

definition getFilePath ::
  "('q, 'm, 'p) collaborators \<Rightarrow> 'q MeshCacheImpl \<Rightarrow> ('q, 'm, 'p, 'c) BuilderContext \<Rightarrow> string" where
  "getFilePath ext self context =
     dataPath self @ ''cache/'' @ getTag (styleProvider context) @ ''/'' @
     show_int (sint (levelOfDetail ext (quadKey context))) @ ''/'' @
     quadKeyToString ext (quadKey context) @ ''.mesh''"

subsection \<open>The write interceptor\<close>

text \<open>
  \<^verbatim>\<open>wrap(std::ostream& stream, const MeshCallback& callback)\<close> and its overload for elements
  build the lambdas; \<open>call_mesh\<close> and \<open>call_element\<close> run a callback, and for a lambda they
  are its body: the tag, for an element the identifier, the serialised value, and then the
  captured callback.
\<close>

definition wrap_mesh :: "nat \<Rightarrow> nat \<Rightarrow> ('m, 'c) callback \<Rightarrow> ('m, 'c) callback" where
  "wrap_mesh stream ca callback = Intercept stream ca callback"

definition wrap_element ::
  "nat \<Rightarrow> nat \<Rightarrow> ('p Element, 'c) callback \<Rightarrow> ('p Element, 'c) callback" where
  "wrap_element stream ca callback = Intercept stream ca callback"

fun call_mesh ::
  "('q, 'm, 'p) collaborators \<Rightarrow> ('m, 'c) callback \<Rightarrow> 'm \<Rightarrow> 'c world \<Rightarrow> error + 'c world" where
  "call_mesh ext (Plain f) mesh w = Inr (w\<lparr>consumer := f mesh (consumer w)\<rparr>)"
| "call_mesh ext (Observing h) mesh w = Inr (w\<lparr>consumer := h mesh (files w) (consumer w)\<rparr>)"
| "call_mesh ext (Intercept stream ca callback) mesh w =
     seq (stream_write stream [MeshType] w) (\<lambda>w1.
     seq (stream_write stream (MeshStream_write ext mesh) w1) (\<lambda>w2.
     if ca \<in> live_contexts w2 then call_mesh ext callback mesh w2
     else Inl UndefinedBehaviour))"

fun call_element ::
  "('q, 'm, 'p) collaborators \<Rightarrow> ('p Element, 'c) callback \<Rightarrow> 'p Element \<Rightarrow> 'c world \<Rightarrow>
   error + 'c world" where
  "call_element ext (Plain f) element w = Inr (w\<lparr>consumer := f element (consumer w)\<rparr>)"
| "call_element ext (Observing h) element w =
     Inr (w\<lparr>consumer := h element (files w) (consumer w)\<rparr>)"
| "call_element ext (Intercept stream ca callback) element w =
     seq (stream_write stream [ElementType] w) (\<lambda>w1.
     seq (stream_write stream (id_bytes (elem_id element)) w1) (\<lambda>w2.
     seq (stream_write stream (ElementStream_write ext element) w2) (\<lambda>w3.
     if ca \<in> live_contexts w3 then call_element ext callback element w3
     else Inl UndefinedBehaviour)))"

subsection \<open>\<^verbatim>\<open>MeshCacheImpl\<close>\<close>

text \<open>\<^verbatim>\<open>isCacheHit\<close>: a quadkey in the registry is being cached, and counts as not cached.\<close>

definition isCacheHit :: "'q MeshCacheImpl \<Rightarrow> 'q \<Rightarrow> string \<Rightarrow> 'c world \<Rightarrow> bool" where
  "isCacheHit self qk filePath w =
     (map_find (cachingQuads self) qk = None \<and> ifstream_good w filePath)"

text \<open>
  \<^verbatim>\<open>wrap(const BuilderContext& context, const std::string& filePath)\<close>, the miss branch.
  \<open>ca\<close> is the address of the caller's context. When the function returns, its local
  \<^verbatim>\<open>shared_ptr\<close> goes away; the stream lives on only if the registry took it.
\<close>

definition wrap_path ::
  "'q MeshCacheImpl \<Rightarrow> nat \<Rightarrow> ('q, 'm, 'p, 'c) BuilderContext \<Rightarrow> string \<Rightarrow> 'c world \<Rightarrow>
   ('q, 'm, 'p, 'c) BuilderContext \<times> 'q MeshCacheImpl \<times> 'c world" where
  "wrap_path self ca context filePath w =
     (let a = next_stream w;
          (file, w1) = open_append filePath w;
          w2 = w1\<lparr>streams := (streams w1)(a \<mapsto> file), next_stream := Suc a\<rparr>;
          self' = self\<lparr>cachingQuads := map_insert (cachingQuads self) (quadKey context, a)\<rparr>;
          context' = context\<lparr>meshCallback := wrap_mesh a ca (meshCallback context),
                             elementCallback := wrap_element a ca (elementCallback context)\<rparr>
      in (context', self',
          if map_find (cachingQuads self') (quadKey context) = Some a then w2
          else destroy_stream a w2))"

definition wrap ::
  "('q, 'm, 'p) collaborators \<Rightarrow> 'q MeshCacheImpl \<Rightarrow> nat \<Rightarrow> ('q, 'm, 'p, 'c) BuilderContext \<Rightarrow>
   'c world \<Rightarrow> ('q, 'm, 'p, 'c) BuilderContext \<times> 'q MeshCacheImpl \<times> 'c world" where
  "wrap ext self ca context w =
     (let filePath = getFilePath ext self context
      in if isCacheHit self (quadKey context) filePath w then (context, self, w)
         else wrap_path self ca context filePath w)"

text \<open>
  \<^verbatim>\<open>readCache\<close>. The file is opened with \<^verbatim>\<open>in | binary | app\<close> (mode \<^verbatim>\<open>"a+b"\<close>, which creates
  a missing file); a stream that failed to open reads nothing, and a stream that opened
  reads the bytes the file holds at that moment. The loop polls the token, reads the tag
  and dispatches on it; a read that falls short leaves the stream at its end.
\<close>

definition open_read :: "string \<Rightarrow> 'c world \<Rightarrow> byte list \<times> 'c world" where
  "open_read filePath w =
     (if writable w filePath
      then (case files w filePath of
              None \<Rightarrow> ([], w\<lparr>files := (files w)(filePath \<mapsto> [])\<rparr>)
            | Some bs \<Rightarrow> (bs, w))
      else ([], w))"

function readLoop ::
  "('q, 'm, 'p) collaborators \<Rightarrow> ('q, 'm, 'p, 'c) BuilderContext \<Rightarrow> CancellationToken \<Rightarrow> nat \<Rightarrow>
   byte list \<Rightarrow> 'c world \<Rightarrow> error + 'c world" where
  "readLoop ext context cancelToken k file w =
     (if isCancelled cancelToken k then Inr w
      else case read_tag file of
        None \<Rightarrow> Inr w
      | Some (type, file1) \<Rightarrow>
          if type = MeshType then
            (case MeshStream_read ext file1 of (mesh, n) \<Rightarrow>
               seq (call_mesh ext (meshCallback context) mesh w)
                 (\<lambda>w'. readLoop ext context cancelToken (Suc k) (drop n file1) w'))
          else if type = ElementType then
            (case read_id file1 of
               None \<Rightarrow> Inl UndefinedBehaviour
             | Some (ident, file2) \<Rightarrow>
                 (case ElementStream_read ext ident file2 of (element, n) \<Rightarrow>
                    seq (call_element ext (elementCallback context) element w)
                      (\<lambda>w'. readLoop ext context cancelToken (Suc k) (drop n file2) w')))
          else Inl (InvalidArgument ''Cannot read cache.''))"
  by pat_completeness auto
termination
proof (relation "measure (\<lambda>(ext, context, cancelToken, k, file, w). length file)", goal_cases)
  case 1
  show ?case by simp
next
  case 2
  have tag: "length r < length b" if "read_tag b = Some (t, r)" for b r :: "byte list" and t
  proof -
    from that have "dropWhile is_space b = t # r"
      by (auto simp: read_tag_def split: list.splits)
    moreover have "length (dropWhile is_space b) \<le> length b"
      by (rule length_dropWhile_le)
    ultimately show ?thesis by simp
  qed
  from 2 show ?case by (auto dest: tag)
next
  case 3
  have tag: "length r < length b" if "read_tag b = Some (t, r)" for b r :: "byte list" and t
  proof -
    from that have "dropWhile is_space b = t # r"
      by (auto simp: read_tag_def split: list.splits)
    moreover have "length (dropWhile is_space b) \<le> length b"
      by (rule length_dropWhile_le)
    ultimately show ?thesis by simp
  qed
  have ident: "length r \<le> length b" if "read_id b = Some (i, r)" for b r :: "byte list" and i
    using that by (auto simp: read_id_def split: if_splits)
  from 3 show ?case by (fastforce dest: tag ident)
qed

declare readLoop.simps [simp del]

definition readCache ::
  "('q, 'm, 'p) collaborators \<Rightarrow> string \<Rightarrow> ('q, 'm, 'p, 'c) BuilderContext \<Rightarrow> CancellationToken \<Rightarrow>
   'c world \<Rightarrow> error + 'c world" where
  "readCache ext filePath context cancelToken w =
     (case open_read filePath w of (file, w1) \<Rightarrow> readLoop ext context cancelToken 0 file w1)"

definition fetch ::
  "('q, 'm, 'p) collaborators \<Rightarrow> 'q MeshCacheImpl \<Rightarrow> ('q, 'm, 'p, 'c) BuilderContext \<Rightarrow>
   CancellationToken \<Rightarrow> 'c world \<Rightarrow> error + bool \<times> 'c world" where
  "fetch ext self context cancelToken w =
     (let filePath = getFilePath ext self context
      in if \<not> isCacheHit self (quadKey context) filePath w then Inr (False, w)
         else seq (readCache ext filePath context cancelToken w) (\<lambda>w'. Inr (True, w')))"

text \<open>
  \<^verbatim>\<open>unwrap\<close>. \<open>unwrap_steps\<close> lists the state after each of its three statements once the entry
  is found: closing the stream if it is good, removing the file if the token is cancelled,
  erasing the entry (which destroys the stream, the registry being its only owner).
  \<open>unwrap\<close> is the state it returns with.
\<close>

definition unwrap_steps ::
  "('q, 'm, 'p) collaborators \<Rightarrow> 'q MeshCacheImpl \<Rightarrow> ('q, 'm, 'p, 'c) BuilderContext \<Rightarrow>
   CancellationToken \<Rightarrow> 'c world \<Rightarrow> ('q MeshCacheImpl \<times> 'c world) list" where
  "unwrap_steps ext self context cancelToken w =
     (case map_find (cachingQuads self) (quadKey context) of
        None \<Rightarrow> []
      | Some a \<Rightarrow>
          let w1 = (if stream_good w a then stream_close a w else w);
              w2 = (if isCancelled cancelToken 0
                    then std_remove (getFilePath ext self context) w1 else w1);
              self' = self\<lparr>cachingQuads := map_erase (cachingQuads self) (quadKey context)\<rparr>
          in [(self, w1), (self, w2), (self', destroy_stream a w2)])"

definition unwrap ::
  "('q, 'm, 'p) collaborators \<Rightarrow> 'q MeshCacheImpl \<Rightarrow> ('q, 'm, 'p, 'c) BuilderContext \<Rightarrow>
   CancellationToken \<Rightarrow> 'c world \<Rightarrow> 'q MeshCacheImpl \<times> 'c world" where
  "unwrap ext self context cancelToken w =
     last ((self, w) # unwrap_steps ext self context cancelToken w)"

subsection \<open>\<^verbatim>\<open>MeshCache\<close>, the facade\<close>

record 'q MeshCache =
  pimpl :: "'q MeshCacheImpl"
  isEnabled :: bool

definition MeshCache_new :: "string \<Rightarrow> 'q MeshCache" where
  "MeshCache_new directory = \<lparr>pimpl = MeshCacheImpl_new directory, isEnabled = True\<rparr>"

definition MeshCache_wrap ::
  "('q, 'm, 'p) collaborators \<Rightarrow> 'q MeshCache \<Rightarrow> nat \<Rightarrow> ('q, 'm, 'p, 'c) BuilderContext \<Rightarrow>
   'c world \<Rightarrow> ('q, 'm, 'p, 'c) BuilderContext \<times> 'q MeshCache \<times> 'c world" where
  "MeshCache_wrap ext cache ca context w =
     (if isEnabled cache
      then (case wrap ext (pimpl cache) ca context w of
              (context', impl', w') \<Rightarrow> (context', cache\<lparr>pimpl := impl'\<rparr>, w'))
      else (context, cache, w))"

definition MeshCache_fetch ::
  "('q, 'm, 'p) collaborators \<Rightarrow> 'q MeshCache \<Rightarrow> ('q, 'm, 'p, 'c) BuilderContext \<Rightarrow>
   CancellationToken \<Rightarrow> 'c world \<Rightarrow> error + bool \<times> 'c world" where
  "MeshCache_fetch ext cache context cancelToken w =
     fetch ext (pimpl cache) context cancelToken w"

definition MeshCache_unwrap ::
  "('q, 'm, 'p) collaborators \<Rightarrow> 'q MeshCache \<Rightarrow> ('q, 'm, 'p, 'c) BuilderContext \<Rightarrow>
   CancellationToken \<Rightarrow> 'c world \<Rightarrow> 'q MeshCache \<times> 'c world" where
  "MeshCache_unwrap ext cache context cancelToken w =
     (case unwrap ext (pimpl cache) context cancelToken w of
        (impl', w') \<Rightarrow> (cache\<lparr>pimpl := impl'\<rparr>, w'))"

subsection \<open>A small instance\<close>

text \<open>
  Collaborators for concrete runs: a quadkey is its level of detail and its string, a mesh
  and the payload of an element are one byte each, and the consumer keeps a log of what
  it was given. The context is the scenario of a tile \<open>0123\<close> at level 14 under the style
  \<open>day\<close>, with the data path \<open>/data/\<close>. The streams of the instance hold what is written
  to them until they are closed, as a stream does whose buffer the records fit.
\<close>

definition ex_ext :: "(32 word \<times> string, byte, byte) collaborators" where
  "ex_ext =
     \<lparr>levelOfDetail = fst,
      quadKeyToString = snd,
      MeshStream_write = (\<lambda>m. [m]),
      MeshStream_read = (\<lambda>buf. case buf of [] \<Rightarrow> (0, 0) | b # rest \<Rightarrow> (b, 1)),
      ElementStream_write = (\<lambda>e. [payload e]),
      ElementStream_read = (\<lambda>i buf. case buf of
          [] \<Rightarrow> (\<lparr>elem_id = i, payload = 0\<rparr>, 0)
        | b # rest \<Rightarrow> (\<lparr>elem_id = i, payload = b\<rparr>, 1))\<rparr>"

type_synonym ex_log = "(byte + byte Element) list"

definition ex_context :: "(32 word \<times> string, byte, byte, ex_log) BuilderContext" where
  "ex_context =
     \<lparr>quadKey = (14, ''0123''),
      styleProvider = \<lparr>getTag = ''day''\<rparr>,
      stringTable = 1,
      eleProvider = 2,
      meshCallback = Plain (\<lambda>m log. log @ [Inl m]),
      elementCallback = Plain (\<lambda>e log. log @ [Inr e])\<rparr>"

definition ex_path :: string where
  "ex_path = ''/data/cache/day/14/0123.mesh''"

definition ex_impl :: "(32 word \<times> string) MeshCacheImpl" where
  "ex_impl = MeshCacheImpl_new ''/data/''"

definition ex_world :: "(string \<rightharpoonup> byte list) \<Rightarrow> bool \<Rightarrow> ex_log world" where
  "ex_world fs wr =
     \<lparr>files = fs, writable = (\<lambda>p. wr), removable = (\<lambda>p. True), flush_policy = (\<lambda>p n. 0),
      streams = Map.empty, next_stream = 0, live_contexts = {0}, consumer = []\<rparr>"

definition never :: CancellationToken where
  "never k = False"

definition always :: CancellationToken where
  "always k = True"

text \<open>
  The same cache with a session open for the tile: the state \<open>wrap\<close> leaves behind on a
  miss, with \<open>bs\<close> the bytes written to the stream so far. The file was created empty when
  the stream was opened, and the bytes are pending in the stream.
\<close>

definition ex_session_impl :: "(32 word \<times> string) MeshCacheImpl" where
  "ex_session_impl = \<lparr>dataPath = ''/data/'', cachingQuads = [((14, ''0123''), 0)]\<rparr>"

definition ex_session_world :: "byte list \<Rightarrow> ex_log world" where
  "ex_session_world bs =
     \<lparr>files = [ex_path \<mapsto> []], writable = (\<lambda>p. True), removable = (\<lambda>p. True),
      flush_policy = (\<lambda>p n. 0),
      streams = [0 \<mapsto> \<lparr>spath = ex_path, is_open = True, good = True, pending = bs\<rparr>],
      next_stream = 1, live_contexts = {0}, consumer = []\<rparr>"

text \<open>A context for the same tile under the style \<open>night\<close>.\<close>

definition ex_night_context :: "(32 word \<times> string, byte, byte, ex_log) BuilderContext" where
  "ex_night_context = ex_context\<lparr>styleProvider := \<lparr>getTag = ''night''\<rparr>\<rparr>"

text \<open>
  A consumer that looks at the disk: each of its callbacks notes what the cache file of the
  tile holds at the moment it is called. Its world starts without files and streams, and
  \<open>fp\<close> is how its streams flush.
\<close>

type_synonym ex_probe = "byte list option list"

definition ex_probe_context :: "(32 word \<times> string, byte, byte, ex_probe) BuilderContext" where
  "ex_probe_context =
     \<lparr>quadKey = (14, ''0123''),
      styleProvider = \<lparr>getTag = ''day''\<rparr>,
      stringTable = 1,
      eleProvider = 2,
      meshCallback = Observing (\<lambda>m fs log. log @ [fs ex_path]),
      elementCallback = Observing (\<lambda>e fs log. log @ [fs ex_path])\<rparr>"

definition ex_probe_world :: "(nat \<Rightarrow> nat \<Rightarrow> nat) \<Rightarrow> ex_probe world" where
  "ex_probe_world fp =
     \<lparr>files = Map.empty, writable = (\<lambda>p. True), removable = (\<lambda>p. True), flush_policy = fp,
      streams = Map.empty, next_stream = 0, live_contexts = {0}, consumer = []\<rparr>"

text \<open>The world of the probe with a session open for the tile and nothing written yet.\<close>

definition ex_probe_session :: "(nat \<Rightarrow> nat \<Rightarrow> nat) \<Rightarrow> ex_probe world" where
  "ex_probe_session fp =
     \<lparr>files = [ex_path \<mapsto> []], writable = (\<lambda>p. True), removable = (\<lambda>p. True),
      flush_policy = fp,
      streams = [0 \<mapsto> \<lparr>spath = ex_path, is_open = True, good = True, pending = []\<rparr>],
      next_stream = 1, live_contexts = {0}, consumer = []\<rparr>"

text \<open>
  What a run leaves: the error, or what the consumer got together with what a file holds on
  disk.
\<close>

definition seen :: "string \<Rightarrow> error + 'c world \<Rightarrow> error + 'c \<times> byte list option" where
  "seen filePath r = map_sum id (\<lambda>w. (consumer w, files w filePath)) r"

text \<open>What a caller sees of a \<open>fetch\<close>: the error or the answer, and what the consumer got.\<close>

definition outcome :: "error + bool \<times> 'c world \<Rightarrow> error + bool \<times> 'c" where
  "outcome r = map_sum id (map_prod id consumer) r"

subsection \<open>Scenarios and the registry invariant\<close>

text \<open>
  The scenario of the round trip: attach, produce one mesh and one element through the
  callbacks of the returned context, finalise; then load.
\<close>

definition build_session ::
  "('q, 'm, 'p) collaborators \<Rightarrow> 'q MeshCacheImpl \<Rightarrow> nat \<Rightarrow> ('q, 'm, 'p, 'c) BuilderContext \<Rightarrow>
   'm \<Rightarrow> 'p Element \<Rightarrow> CancellationToken \<Rightarrow> 'c world \<Rightarrow> error + 'q MeshCacheImpl \<times> 'c world" where
  "build_session ext self ca context mesh element finalToken w =
     (case wrap ext self ca context w of (context', self1, w1) \<Rightarrow>
        seq (call_mesh ext (meshCallback context') mesh w1) (\<lambda>w2.
        seq (call_element ext (elementCallback context') element w2) (\<lambda>w3.
        Inr (unwrap ext self1 context finalToken w3))))"

definition round_trip ::
  "('q, 'm, 'p) collaborators \<Rightarrow> 'q MeshCacheImpl \<Rightarrow> nat \<Rightarrow> ('q, 'm, 'p, 'c) BuilderContext \<Rightarrow>
   'm \<Rightarrow> 'p Element \<Rightarrow> CancellationToken \<Rightarrow> CancellationToken \<Rightarrow> 'c world \<Rightarrow>
   error + bool \<times> 'c world" where
  "round_trip ext self ca context mesh element finalToken fetchToken w =
     seq (build_session ext self ca context mesh element finalToken w)
       (\<lambda>(self2, w4). fetch ext self2 context fetchToken w4)"

text \<open>
  The scenario of a build that is given up: attach with \<open>context\<close>, produce one mesh through
  the callback of the returned context, finalise with \<open>context2\<close>.
\<close>

definition abandon_session ::
  "('q, 'm, 'p) collaborators \<Rightarrow> 'q MeshCacheImpl \<Rightarrow> nat \<Rightarrow> ('q, 'm, 'p, 'c) BuilderContext \<Rightarrow>
   'm \<Rightarrow> ('q, 'm, 'p, 'c) BuilderContext \<Rightarrow> CancellationToken \<Rightarrow> 'c world \<Rightarrow>
   error + 'q MeshCacheImpl \<times> 'c world" where
  "abandon_session ext self ca context mesh context2 cancelToken w =
     (case wrap ext self ca context w of (context', self1, w1) \<Rightarrow>
        seq (call_mesh ext (meshCallback context') mesh w1) (\<lambda>w2.
        Inr (unwrap ext self1 context2 cancelToken w2)))"

text \<open>The sessions the registry holds for a quadkey, as the streams they own.\<close>

definition sessions_of :: "'q MeshCacheImpl \<Rightarrow> 'q \<Rightarrow> nat list" where
  "sessions_of self qk = map snd (filter (\<lambda>kv. fst kv = qk) (cachingQuads self))"

text \<open>
  The invariant of the registry and the heap of streams: keys are unique, no stream is
  shared, the streams alive are those of the registry, and the allocator is ahead of them.
\<close>

definition registry_inv :: "'q MeshCacheImpl \<Rightarrow> 'c world \<Rightarrow> bool" where
  "registry_inv self w =
     (distinct (map fst (cachingQuads self)) \<and> distinct (map snd (cachingQuads self)) \<and>
      snd ` set (cachingQuads self) = dom (streams w) \<and>
      (\<forall>a \<in> dom (streams w). a < next_stream w))"

text \<open>
  The states a cache can be in: it starts with an empty registry and no stream, and then
  any of its operations runs, a callback is called, or the world outside (files, contexts,
  the consumer) changes.
\<close>

inductive reachable ::
  "('q, 'm, 'p) collaborators \<Rightarrow> 'q MeshCacheImpl \<Rightarrow> 'c world \<Rightarrow> bool" for ext where
  start: "streams w = Map.empty \<Longrightarrow> reachable ext (MeshCacheImpl_new directory) w"
| after_wrap:
    "reachable ext self w \<Longrightarrow> wrap ext self ca context w = (context', self', w') \<Longrightarrow>
     reachable ext self' w'"
| after_unwrap:
    "reachable ext self w \<Longrightarrow> unwrap ext self context cancelToken w = (self', w') \<Longrightarrow>
     reachable ext self' w'"
| after_fetch:
    "reachable ext self w \<Longrightarrow> fetch ext self context cancelToken w = Inr (b, w') \<Longrightarrow>
     reachable ext self w'"
| after_mesh:
    "reachable ext self w \<Longrightarrow> call_mesh ext cb mesh w = Inr w' \<Longrightarrow> reachable ext self w'"
| after_element:
    "reachable ext self w \<Longrightarrow> call_element ext cb' element w = Inr w' \<Longrightarrow>
     reachable ext self w'"
| outside:
    "reachable ext self w \<Longrightarrow>
     reachable ext self (w\<lparr>files := fs, writable := wr, live_contexts := L, consumer := c\<rparr>)"

section \<open>Properties\<close>

subsection \<open>Auxiliary facts\<close>

lemma map_find_None_iff: "map_find m k = None \<longleftrightarrow> k \<notin> fst ` set m"
  by (simp add: map_find_def map_of_eq_None_iff)

lemma map_find_erase_same: "map_find (map_erase m k) k = None"
  by (auto simp: map_find_None_iff map_erase_def)

lemma ex_getFilePath: "getFilePath ex_ext ex_impl ex_context = ex_path"
  by (simp add: getFilePath_def ex_ext_def ex_impl_def ex_context_def ex_path_def
      MeshCacheImpl_new_def show_int_def show_nat.simps digit_char_def)

text \<open>\<open>unwrap\<close> in one piece.\<close>

lemma unwrap_eq:
  "unwrap ext self context cancelToken w =
     (case map_find (cachingQuads self) (quadKey context) of
        None \<Rightarrow> (self, w)
      | Some a \<Rightarrow>
          (self\<lparr>cachingQuads := map_erase (cachingQuads self) (quadKey context)\<rparr>,
           destroy_stream a
             (let w1 = (if stream_good w a then stream_close a w else w)
              in if isCancelled cancelToken 0
                 then std_remove (getFilePath ext self context) w1 else w1)))"
  by (simp add: unwrap_def unwrap_steps_def Let_def split: option.splits)

text \<open>What handing bytes to a file leaves alone, and what it does to the file.\<close>

lemma write_out_frame [simp]:
  "streams (write_out p bs w) = streams w"
  "next_stream (write_out p bs w) = next_stream w"
  "live_contexts (write_out p bs w) = live_contexts w"
  "consumer (write_out p bs w) = consumer w"
  "writable (write_out p bs w) = writable w"
  "removable (write_out p bs w) = removable w"
  "flush_policy (write_out p bs w) = flush_policy w"
  by (simp_all add: write_out_def split: option.splits)

lemma write_out_Nil [simp]: "write_out p [] w = w"
  by (simp add: write_out_def)

lemma write_out_existing:
  "files w p = Some old \<Longrightarrow> write_out p bs w = w\<lparr>files := (files w)(p \<mapsto> old @ bs)\<rparr>"
  by (simp add: write_out_def fun_upd_idem)

text \<open>The state of a session, and a write in it.\<close>

lemma session_state_simps [simp]:
  "files (session_state w a s disk buf) = (files w)(spath s \<mapsto> disk)"
  "streams (session_state w a s disk buf) = (streams w)(a \<mapsto> s\<lparr>pending := buf\<rparr>)"
  "next_stream (session_state w a s disk buf) = next_stream w"
  "live_contexts (session_state w a s disk buf) = live_contexts w"
  "consumer (session_state w a s disk buf) = consumer w"
  "writable (session_state w a s disk buf) = writable w"
  "removable (session_state w a s disk buf) = removable w"
  "flush_policy (session_state w a s disk buf) = flush_policy w"
  "(session_state w a s disk buf)\<lparr>consumer := c\<rparr> = session_state (w\<lparr>consumer := c\<rparr>) a s disk buf"
  by (simp_all add: session_state_def)

lemma session_state_self:
  "streams w a = Some s \<Longrightarrow> files w (spath s) = Some disk \<Longrightarrow>
   session_state w a s disk (pending s) = w"
  by (simp add: session_state_def fun_upd_idem)

lemma stream_write_session:
  assumes "is_open s" and "good s"
  shows "\<exists>disk' buf'. disk' @ buf' = disk @ buf @ bs \<and> prefix disk disk' \<and>
     stream_write a bs (session_state w a s disk buf) = Inr (session_state w a s disk' buf')"
proof -
  define n where "n = min (flush_policy w (length buf) (length bs)) (length (buf @ bs))"
  have "stream_write a bs (session_state w a s disk buf) =
      Inr (session_state w a s (disk @ take n (buf @ bs)) (drop n (buf @ bs)))"
    using assms
    by (simp add: stream_write_def Let_def n_def write_out_existing session_state_def)
  moreover have "(disk @ take n (buf @ bs)) @ drop n (buf @ bs) = disk @ buf @ bs"
    by (simp only: append_assoc append_take_drop_id)
  moreover have "prefix disk (disk @ take n (buf @ bs))"
    by simp
  ultimately show ?thesis by blast
qed

text \<open>Closing and destroying the stream of a session hands the file what was pending.\<close>

lemma close_session:
  "is_open s \<Longrightarrow>
   destroy_stream a (stream_close a (session_state w a s disk buf)) =
     w\<lparr>files := (files w)(spath s \<mapsto> disk @ buf), streams := (streams w)(a := None)\<rparr>"
  by (simp add: stream_close_def destroy_stream_def Let_def write_out_existing session_state_def)

lemma readLoop_cancelled:
  "isCancelled cancelToken k \<Longrightarrow> readLoop ext context cancelToken k file w = Inr w"
  by (simp add: readLoop.simps)

lemma readLoop_end: "readLoop ext ctx cancelToken k [] w = Inr w"
  by (subst readLoop.simps) (simp add: read_tag_def)

lemma open_read_existing: "files w filePath \<noteq> None \<Longrightarrow> snd (open_read filePath w) = w"
  by (auto simp: open_read_def)

lemma map_find_Some_range: "map_find m k = Some a \<Longrightarrow> a \<in> snd ` set m"
  by (auto simp: map_find_def dest!: map_of_SomeD intro: rev_image_eqI)

lemma getFilePath_cachingQuads [simp]:
  "getFilePath ext (self\<lparr>cachingQuads := m\<rparr>) context = getFilePath ext self context"
  by (simp add: getFilePath_def)

text \<open>The identifier field reads back what was written.\<close>

lemma byte_step:
  "or (ucast (ucast v :: byte)) (push_bit 8 (take_bit m (drop_bit 8 v))) =
   take_bit (8 + m) (v :: 64 word)"
  by (rule bit_word_eqI) (auto simp: bit_simps)

lemma id_of_bytes_Cons: "id_of_bytes (b # bs) = or (ucast b) (push_bit 8 (id_of_bytes bs))"
  by (simp add: id_of_bytes_def)

lemma id_of_bytes_gen:
  "id_of_bytes (map (\<lambda>i. ucast (drop_bit (8 * i) w)) [k..<k + n]) =
   take_bit (8 * n) (drop_bit (8 * k) w)"
proof (induction n arbitrary: k)
  case 0
  then show ?case by (simp add: id_of_bytes_def)
next
  case (Suc n)
  have "[k..<k + Suc n] = k # [Suc k..<Suc k + n]"
    by (simp add: upt_rec)
  then have "id_of_bytes (map (\<lambda>i. ucast (drop_bit (8 * i) w)) [k..<k + Suc n]) =
      or (ucast (ucast (drop_bit (8 * k) w) :: byte))
         (push_bit 8 (take_bit (8 * n) (drop_bit (8 * Suc k) w)))"
    using Suc.IH [of "Suc k"] by (simp only: list.map id_of_bytes_Cons)
  also have "drop_bit (8 * Suc k) w = drop_bit 8 (drop_bit (8 * k) w)"
    by (simp add: add.commute)
  finally show ?case
    by (simp only: byte_step) simp
qed

lemma id_of_bytes_id_bytes: "id_of_bytes (id_bytes i) = i"
  using id_of_bytes_gen [of i 0 8] by (simp add: id_bytes_def take_bit_word_eq_self)

lemma id_bytes_7: "id_bytes 7 = [7, 0, 0, 0, 0, 0, 0, 0]"
  by (simp add: id_bytes_def upt_rec)

lemma length_id_bytes: "length (id_bytes i) = 8"
  by (simp add: id_bytes_def)

lemma read_id_id_bytes: "read_id (id_bytes i @ rest) = Some (i, rest)"
  by (simp add: read_id_def length_id_bytes id_of_bytes_id_bytes)

text \<open>Evaluation of the small instance.\<close>

lemma ex_path_any:
  "getFilePath ex_ext \<lparr>dataPath = ''/data/'', cachingQuads = m\<rparr> ex_context = ex_path"
  by (simp add: getFilePath_def ex_ext_def ex_context_def ex_path_def
      show_int_def show_nat.simps digit_char_def)

lemma ex_context_simps:
  "quadKey ex_context = (14, ''0123'')"
  "meshCallback ex_context = Plain (\<lambda>m log. log @ [Inl m])"
  "elementCallback ex_context = Plain (\<lambda>e log. log @ [Inr e])"
  by (simp_all add: ex_context_def)

lemma ex_ext_simps:
  "MeshStream_write ex_ext m = [m]"
  "MeshStream_read ex_ext [] = (0, 0)"
  "MeshStream_read ex_ext (b # rest) = (b, 1)"
  "ElementStream_write ex_ext e = [payload e]"
  "ElementStream_read ex_ext i [] = (\<lparr>elem_id = i, payload = 0\<rparr>, 0)"
  "ElementStream_read ex_ext i (b # rest) = (\<lparr>elem_id = i, payload = b\<rparr>, 1)"
  by (simp_all add: ex_ext_def)

lemma ex_night_path:
  "getFilePath ex_ext \<lparr>dataPath = ''/data/'', cachingQuads = m\<rparr> ex_night_context =
     ''/data/cache/night/14/0123.mesh''"
  by (simp add: getFilePath_def ex_ext_def ex_context_def ex_night_context_def
      show_int_def show_nat.simps digit_char_def)

lemma ex_probe_path:
  "getFilePath ex_ext \<lparr>dataPath = ''/data/'', cachingQuads = m\<rparr> ex_probe_context = ex_path"
  by (simp add: getFilePath_def ex_ext_def ex_probe_context_def ex_path_def
      show_int_def show_nat.simps digit_char_def)

lemma ex_probe_context_simps:
  "quadKey ex_probe_context = (14, ''0123'')"
  "meshCallback ex_probe_context = Observing (\<lambda>m fs log. log @ [fs ex_path])"
  "elementCallback ex_probe_context = Observing (\<lambda>e fs log. log @ [fs ex_path])"
  by (simp_all add: ex_probe_context_def)

lemma ex_probe_wrap:
  "wrap ex_ext ex_impl 0 ex_probe_context (ex_probe_world fp) =
     (ex_probe_context\<lparr>meshCallback := Intercept 0 0 (meshCallback ex_probe_context),
                       elementCallback := Intercept 0 0 (elementCallback ex_probe_context)\<rparr>,
      ex_session_impl, ex_probe_session fp)"
  by (simp add: wrap_def wrap_path_def Let_def isCacheHit_def ifstream_good_def ex_impl_def
      MeshCacheImpl_new_def ex_probe_path ex_probe_context_simps ex_probe_world_def
      ex_probe_session_def ex_session_impl_def open_append_def map_find_def map_insert_def
      wrap_mesh_def wrap_element_def)

lemmas ex_eval =
  ex_path_any ex_context_simps ex_ext_simps ex_impl_def MeshCacheImpl_new_def ex_world_def
  ex_session_impl_def ex_session_world_def map_find_def map_insert_def map_erase_def
  isCacheHit_def ifstream_good_def open_append_def open_read_def stream_write_def write_out_def
  Let_def
  stream_good_def stream_close_def std_remove_def destroy_stream_def seq_def
  isCancelled_def never_def always_def read_tag_def read_id_def is_space_def
  MeshType_def ElementType_def readCache_def readLoop.simps fetch_def wrap_def wrap_path_def
  wrap_mesh_def wrap_element_def unwrap_def unwrap_steps_def MeshCache_fetch_def
  MeshCache_unwrap_def MeshCache_wrap_def outcome_def build_session_def round_trip_def

lemma ex_wrap:
  "wrap ex_ext ex_impl 0 ex_context (ex_world Map.empty True) =
     (ex_context\<lparr>meshCallback := Intercept 0 0 (meshCallback ex_context),
                 elementCallback := Intercept 0 0 (elementCallback ex_context)\<rparr>,
      ex_session_impl, ex_session_world [])"
  by (simp add: ex_eval)

subsection \<open>Hit detection\<close>

text \<open>
  C3. \<open>isCacheHit\<close> answers true exactly when the quadkey has no entry in the registry and
  a file that can be opened for reading exists at the path. In particular a quadkey with
  an open session, that is with an entry \<open>(qk, a)\<close> in the registry, is never a hit,
  whatever the file system holds at the path.
\<close>

theorem isCacheHit_iff:
  "(isCacheHit self qk filePath w \<longleftrightarrow>
      qk \<notin> fst ` set (cachingQuads self) \<and> filePath \<in> dom (files w)) \<and>
   ((qk, a) \<in> set (cachingQuads self) \<longrightarrow> \<not> isCacheHit self qk filePath w)"
proof -
  have "isCacheHit self qk filePath w \<longleftrightarrow>
      qk \<notin> fst ` set (cachingQuads self) \<and> filePath \<in> dom (files w)"
    by (auto simp: isCacheHit_def map_find_None_iff ifstream_good_def)
  then show ?thesis by force
qed

theorem isCacheHit_iff_witness:
  "isCacheHit (ex_impl\<lparr>cachingQuads := []\<rparr>) (14, ''0123'') ex_path
      (ex_world [ex_path \<mapsto> [1, 5]] True) \<and>
   \<not> isCacheHit (ex_impl\<lparr>cachingQuads := [((14, ''0123''), 0)]\<rparr>) (14, ''0123'') ex_path
      (ex_world [ex_path \<mapsto> [1, 5]] True)"
  using isCacheHit_iff [of "ex_impl\<lparr>cachingQuads := []\<rparr>" "(14, ''0123'')" ex_path
      "ex_world [ex_path \<mapsto> [1, 5]] True" 0]
    isCacheHit_iff [of "ex_impl\<lparr>cachingQuads := [((14, ''0123''), 0)]\<rparr>" "(14, ''0123'')" ex_path
      "ex_world [ex_path \<mapsto> [1, 5]] True" 0]
  by (simp add: ex_world_def)

subsection \<open>Finalising without a session\<close>

text \<open>
  C8. When the quadkey of the context has no entry in the registry, \<open>unwrap\<close> returns with
  the registry and the whole world as they were: no file is removed (also under a
  cancelled token), no stream is touched, and there is no error. The same holds through
  the facade.
\<close>

theorem unwrap_without_session:
  "quadKey context \<notin> fst ` set (cachingQuads self) \<Longrightarrow>
   unwrap ext self context cancelToken w = (self, w) \<and>
   MeshCache_unwrap ext \<lparr>pimpl = self, isEnabled = en\<rparr> context cancelToken w =
     (\<lparr>pimpl = self, isEnabled = en\<rparr>, w)"
  by (simp add: unwrap_def unwrap_steps_def MeshCache_unwrap_def map_find_None_iff [symmetric])

theorem unwrap_without_session_witness:
  "unwrap ex_ext ex_impl ex_context always (ex_world [ex_path \<mapsto> [1, 5]] True) =
     (ex_impl, ex_world [ex_path \<mapsto> [1, 5]] True) \<and>
   files (snd (unwrap ex_ext ex_impl ex_context always (ex_world [ex_path \<mapsto> [1, 5]] True)))
     (getFilePath ex_ext ex_impl ex_context) = Some [1, 5]"
proof -
  have h: "quadKey ex_context \<notin> fst ` set (cachingQuads ex_impl)"
    by (simp add: ex_impl_def MeshCacheImpl_new_def)
  show ?thesis
    using unwrap_without_session [OF h, of ex_ext always "ex_world [ex_path \<mapsto> [1, 5]] True" True]
    by (simp add: ex_getFilePath ex_world_def)
qed

subsection \<open>Loading under a token that is already cancelled\<close>

text \<open>
  C10. When the hit check of \<open>fetch\<close> succeeds and the token is cancelled at the first
  poll, \<open>fetch\<close> still returns true, and the world is as before: no record is read and no
  callback runs. The same holds through the facade.
\<close>

theorem fetch_cancelled_at_entry:
  "isCacheHit self (quadKey context) (getFilePath ext self context) w \<Longrightarrow>
   isCancelled cancelToken 0 \<Longrightarrow>
   fetch ext self context cancelToken w = Inr (True, w) \<and>
   MeshCache_fetch ext \<lparr>pimpl = self, isEnabled = en\<rparr> context cancelToken w = Inr (True, w)"
proof -
  assume hit: "isCacheHit self (quadKey context) (getFilePath ext self context) w"
    and c: "isCancelled cancelToken 0"
  from hit have "files w (getFilePath ext self context) \<noteq> None"
    by (simp add: isCacheHit_def ifstream_good_def)
  then have "snd (open_read (getFilePath ext self context) w) = w"
    by (rule open_read_existing)
  then have "readCache ext (getFilePath ext self context) context cancelToken w = Inr w"
    using c by (cases "open_read (getFilePath ext self context) w")
      (simp add: readCache_def readLoop_cancelled)
  with hit show ?thesis by (simp add: fetch_def seq_def MeshCache_fetch_def)
qed

theorem fetch_cancelled_at_entry_witness:
  "fetch ex_ext ex_impl ex_context always (ex_world [ex_path \<mapsto> [1, 5]] True) =
     Inr (True, ex_world [ex_path \<mapsto> [1, 5]] True) \<and>
   consumer (ex_world [ex_path \<mapsto> [1, 5]] True) = []"
proof -
  have "isCacheHit ex_impl (quadKey ex_context) (getFilePath ex_ext ex_impl ex_context)
      (ex_world [ex_path \<mapsto> [1, 5]] True)"
    unfolding ex_getFilePath
    by (simp add: isCacheHit_def ex_impl_def MeshCacheImpl_new_def map_find_def
        ifstream_good_def ex_world_def)
  moreover have "isCancelled always 0"
    by (simp add: isCancelled_def always_def)
  ultimately show ?thesis
    using fetch_cancelled_at_entry
      [of ex_impl ex_context ex_ext "ex_world [ex_path \<mapsto> [1, 5]] True" always True]
    by (simp add: ex_world_def)
qed

subsection \<open>Finalising a cancelled session\<close>

text \<open>
  When the quadkey of the context has a session and the token is cancelled, \<open>unwrap\<close> runs
  its three statements in this order: close, remove the file, erase the entry. The file it
  removes is the one the context it was given resolves to: when the file system lets that
  file be removed, it is gone after the second statement, while the registry still holds
  the entry, and in the state \<open>unwrap\<close> returns that file does not exist and the quadkey has
  no entry. The path the stream of the session was opened on plays no part.
\<close>

lemma unwrap_cancelled_removes_context_path:
  assumes "map_find (cachingQuads self) (quadKey context) = Some a"
    and "isCancelled cancelToken 0"
    and "removable w (getFilePath ext self context)"
  shows "\<exists>w1 w2 self' w'.
     unwrap_steps ext self context cancelToken w = [(self, w1), (self, w2), (self', w')] \<and>
     unwrap ext self context cancelToken w = (self', w') \<and>
     files w2 (getFilePath ext self context) = None \<and>
     files w' (getFilePath ext self context) = None \<and>
     map_find (cachingQuads self') (quadKey context) = None"
proof -
  define w1 where "w1 = (if stream_good w a then stream_close a w else w)"
  define w2 where "w2 = std_remove (getFilePath ext self context) w1"
  have "removable w1 = removable w"
    by (simp add: w1_def stream_close_def split: option.splits)
  with assms(3) have gone: "files w2 (getFilePath ext self context) = None"
    by (simp add: w2_def std_remove_def)
  then have "files (destroy_stream a w2) (getFilePath ext self context) = None"
    by (cases "streams w2 a")
      (auto simp: destroy_stream_def Let_def write_out_def split: option.splits)
  with gone assms show ?thesis
    by (simp add: unwrap_def unwrap_steps_def Let_def w1_def w2_def map_find_erase_same)
qed

lemma ex_night_context_simps:
  "quadKey ex_night_context = (14, ''0123'')"
  "getTag (styleProvider ex_night_context) = ''night''"
  "getTag (styleProvider ex_context) = ''day''"
  by (simp_all add: ex_night_context_def ex_context_def)

text \<open>
  C4. The registry is keyed by the quadkey alone, while the path of a cache file also
  depends on the style of the context. A session is opened for the tile under the style
  \<open>day\<close>, so its stream writes to \<open>/data/cache/day/14/0123.mesh\<close>, and one mesh is produced.
  The tile is then finalised under a cancelled token with a context of the same quadkey and
  the style \<open>night\<close>: \<open>unwrap\<close> finds the session, closes its stream, removes the file of the
  style \<open>night\<close>, which does not exist, and erases the entry. The file of the session
  stays, with the record of the one mesh; for the context the session was opened with
  \<open>isCacheHit\<close> is now true, and \<open>fetch\<close> answers true and replays the mesh, so the
  consumer, which got the mesh once when it was produced, gets it again from a build that
  was cancelled. Finalised with the context it was opened with, the same session leaves no
  file, unless the file system refuses to remove it: \<open>unwrap\<close> drops the result of the
  removal, so the entry is erased all the same and the file stays.
\<close>

theorem unwrap_cancelled_other_style:
  "quadKey ex_night_context = quadKey ex_context \<and>
   getTag (styleProvider ex_night_context) \<noteq> getTag (styleProvider ex_context) \<and>
   (case wrap ex_ext ex_impl 0 ex_context (ex_world Map.empty True) of
      (context', self1, w1) \<Rightarrow>
        (map_find (cachingQuads self1) (quadKey ex_night_context),
         map_option spath (streams w1 0))) = (Some 0, Some ex_path) \<and>
   map_sum id (\<lambda>(self3, w3). (cachingQuads self3, files w3 ex_path,
        isCacheHit self3 (quadKey ex_context) (getFilePath ex_ext self3 ex_context) w3))
     (abandon_session ex_ext ex_impl 0 ex_context 5 ex_night_context always
        (ex_world Map.empty True)) = Inr ([], Some [1, 5], True) \<and>
   outcome (seq (abandon_session ex_ext ex_impl 0 ex_context 5 ex_night_context always
        (ex_world Map.empty True))
      (\<lambda>(self3, w3). fetch ex_ext self3 ex_context never w3)) = Inr (True, [Inl 5, Inl 5]) \<and>
   map_sum id (\<lambda>(self3, w3). (cachingQuads self3, files w3 ex_path))
     (abandon_session ex_ext ex_impl 0 ex_context 5 ex_context always
        (ex_world Map.empty True)) = Inr ([], None) \<and>
   map_sum id (\<lambda>(self3, w3). (cachingQuads self3, files w3 ex_path))
     (abandon_session ex_ext ex_impl 0 ex_context 5 ex_context always
        ((ex_world Map.empty True)\<lparr>removable := \<lambda>p. False\<rparr>)) = Inr ([], Some [1, 5])"
  unfolding abandon_session_def ex_wrap prod.case
  by (simp add: ex_eval ex_night_context_simps ex_night_path ex_path_def)

subsection \<open>The enable flag\<close>

lemma MeshCache_wrap_disabled:
  "MeshCache_wrap ext (cache\<lparr>isEnabled := False\<rparr>) ca context w =
     (context, cache\<lparr>isEnabled := False\<rparr>, w)"
  by (simp add: MeshCache_wrap_def)

text \<open>
  C2. Only \<open>MeshCache_wrap\<close> looks at the flag. With the flag off, \<open>MeshCache_fetch\<close> on a
  tile whose file holds one mesh record still reads the file, calls the mesh callback and
  answers true; and \<open>MeshCache_unwrap\<close> with a cancelled token on a tile with a session
  still closes the stream, removes the file and erases the entry.
\<close>

theorem disabled_cache_still_fetches:
  "outcome (MeshCache_fetch ex_ext \<lparr>pimpl = ex_impl, isEnabled = False\<rparr> ex_context never
      (ex_world [ex_path \<mapsto> [1, 5]] True)) = Inr (True, [Inl 5]) \<and>
   files (snd (MeshCache_unwrap ex_ext \<lparr>pimpl = ex_session_impl, isEnabled = False\<rparr> ex_context
      always (ex_session_world [1, 5]))) ex_path = None \<and>
   cachingQuads (pimpl (fst (MeshCache_unwrap ex_ext \<lparr>pimpl = ex_session_impl, isEnabled = False\<rparr>
      ex_context always (ex_session_world [1, 5])))) = []"
  by (simp add: ex_eval)

subsection \<open>Tags the reader does not know\<close>

text \<open>
  What the loop does with a byte in the place of a tag that is no white space and none of
  the two tags: it raises the error. (Its end at the end of the stream and under a
  cancelled token are \<open>readLoop_end\<close> and \<open>readLoop_cancelled\<close>.)
\<close>

lemma readLoop_unknown_tag:
  "\<not> isCancelled cancelToken k \<Longrightarrow> \<not> is_space t \<Longrightarrow> t \<noteq> MeshType \<Longrightarrow> t \<noteq> ElementType \<Longrightarrow>
   readLoop ext ctx cancelToken k (t # rest) w = Inl (InvalidArgument ''Cannot read cache.'')"
  by (subst readLoop.simps) (simp add: read_tag_def)

lemma readLoop_white_space:
  "is_space t \<Longrightarrow> readLoop ext ctx cancelToken k (t # rest) w = readLoop ext ctx cancelToken k rest w"
proof -
  assume "is_space t"
  then have "read_tag (t # rest) = read_tag rest"
    by (simp add: read_tag_def)
  then show ?thesis
    by (simp add: readLoop.simps [of ext ctx cancelToken k "t # rest" w]
        readLoop.simps [of ext ctx cancelToken k rest w])
qed

text \<open>
  C5. The tag is read with the formatted \<^verbatim>\<open>file >> type\<close>, which skips white space. A file
  that holds the single byte \<open>0x20\<close> is replayed as an empty file, without error, and
  \<open>fetch\<close> answers true; a white space byte before a record is skipped and the record is
  replayed. A byte such as \<open>0x02\<close> in the place of a tag does raise the error.
\<close>

theorem readCache_white_space_tag:
  "map_sum id consumer (readCache ex_ext ex_path ex_context never
      (ex_world [ex_path \<mapsto> [32]] True)) = Inr [] \<and>
   outcome (fetch ex_ext ex_impl ex_context never (ex_world [ex_path \<mapsto> [32]] True)) =
     Inr (True, []) \<and>
   map_sum id consumer (readCache ex_ext ex_path ex_context never
      (ex_world [ex_path \<mapsto> [32, 1, 5]] True)) = Inr [Inl 5] \<and>
   map_sum id consumer (readCache ex_ext ex_path ex_context never
      (ex_world [ex_path \<mapsto> [2]] True)) = Inl (InvalidArgument ''Cannot read cache.'')"
  by (simp add: ex_eval)

subsection \<open>One session for a quadkey\<close>

text \<open>What a write and a callback leave alone: the set of streams alive and the allocator.\<close>

lemma stream_write_frame:
  "stream_write a bs w = Inr w' \<Longrightarrow>
   dom (streams w') = dom (streams w) \<and> next_stream w' = next_stream w \<and>
   live_contexts w' = live_contexts w"
  by (auto simp: stream_write_def Let_def split: option.splits if_splits)

lemma call_mesh_frame:
  "call_mesh ext cb mesh w = Inr w' \<Longrightarrow>
   dom (streams w') = dom (streams w) \<and> next_stream w' = next_stream w"
proof (induction cb arbitrary: w)
  case (Plain f)
  then show ?case by auto
next
  case (Observing h)
  then show ?case by auto
next
  case (Intercept a ca cb)
  from Intercept.prems obtain w1 w2 where
    "stream_write a [MeshType] w = Inr w1"
    "stream_write a (MeshStream_write ext mesh) w1 = Inr w2"
    "call_mesh ext cb mesh w2 = Inr w'"
    by (auto simp: seq_def split: sum.splits if_splits)
  then show ?case
    using stream_write_frame [of a "[MeshType]" w w1]
      stream_write_frame [of a "MeshStream_write ext mesh" w1 w2] Intercept.IH [of w2]
    by simp
qed

lemma call_element_frame:
  "call_element ext cb element w = Inr w' \<Longrightarrow>
   dom (streams w') = dom (streams w) \<and> next_stream w' = next_stream w"
proof (induction cb arbitrary: w)
  case (Plain f)
  then show ?case by auto
next
  case (Observing h)
  then show ?case by auto
next
  case (Intercept a ca cb)
  from Intercept.prems obtain w1 w2 w3 where
    "stream_write a [ElementType] w = Inr w1"
    "stream_write a (id_bytes (elem_id element)) w1 = Inr w2"
    "stream_write a (ElementStream_write ext element) w2 = Inr w3"
    "call_element ext cb element w3 = Inr w'"
    by (auto simp: seq_def split: sum.splits if_splits)
  then show ?case
    using stream_write_frame [of a "[ElementType]" w w1]
      stream_write_frame [of a "id_bytes (elem_id element)" w1 w2]
      stream_write_frame [of a "ElementStream_write ext element" w2 w3] Intercept.IH [of w3]
    by simp
qed

lemma readLoop_frame:
  "readLoop ext ctx cancelToken k buf w = Inr w' \<Longrightarrow>
   dom (streams w') = dom (streams w) \<and> next_stream w' = next_stream w"
proof (induction ext ctx cancelToken k buf w rule: readLoop.induct)
  case (1 ext ctx cancelToken k buf w)
  show ?case
  proof (cases "isCancelled cancelToken k")
    case True
    with "1.prems" show ?thesis by (simp add: readLoop.simps)
  next
    case nc: False
    show ?thesis
    proof (cases "read_tag buf")
      case None
      with nc "1.prems" show ?thesis by (simp add: readLoop.simps)
    next
      case (Some tf)
      obtain type buf1 where tf: "tf = (type, buf1)" by (cases tf)
      show ?thesis
      proof (cases "type = MeshType")
        case True
        obtain mesh n where mr: "MeshStream_read ext buf1 = (mesh, n)"
          by (cases "MeshStream_read ext buf1")
        from "1.prems" nc Some tf True mr obtain w1 where
          c: "call_mesh ext (meshCallback ctx) mesh w = Inr w1" and
          r: "readLoop ext ctx cancelToken (Suc k) (drop n buf1) w1 = Inr w'"
          by (subst (asm) readLoop.simps) (auto simp: seq_def split: sum.splits)
        from "1.IH"(1) [OF nc Some tf [symmetric] True mr [symmetric] r]
          call_mesh_frame [OF c]
        show ?thesis by simp
      next
        case nm: False
        show ?thesis
        proof (cases "type = ElementType")
          case True
          from "1.prems" nc Some tf nm True obtain ident buf2 where
            ri: "read_id buf1 = Some (ident, buf2)"
            by (subst (asm) readLoop.simps) (auto split: option.splits)
          obtain element n where er: "ElementStream_read ext ident buf2 = (element, n)"
            by (cases "ElementStream_read ext ident buf2")
          from "1.prems" nc Some tf nm True ri er obtain w1 where
            c: "call_element ext (elementCallback ctx) element w = Inr w1" and
            r: "readLoop ext ctx cancelToken (Suc k) (drop n buf2) w1 = Inr w'"
            by (subst (asm) readLoop.simps) (auto simp: seq_def split: sum.splits)
          from "1.IH"(2) [OF nc Some tf [symmetric] nm True ri _ er [symmetric] r]
            call_element_frame [OF c]
          show ?thesis by simp
        next
          case False
          with "1.prems" nc Some tf nm show ?thesis
            by (subst (asm) readLoop.simps) simp
        qed
      qed
    qed
  qed
qed

text \<open>The two outcomes of the miss branch of \<open>wrap\<close>.\<close>

lemma open_append_frame:
  "open_append p w = (f, w1) \<Longrightarrow>
   streams w1 = streams w \<and> next_stream w1 = next_stream w \<and>
   live_contexts w1 = live_contexts w \<and> consumer w1 = consumer w \<and> writable w1 = writable w \<and>
   pending f = []"
  by (auto simp: open_append_def split: if_splits)

lemma wrap_path_new_session:
  assumes "map_find (cachingQuads self) (quadKey context) = None"
  shows "wrap_path self ca context p w =
     (context\<lparr>meshCallback := Intercept (next_stream w) ca (meshCallback context),
              elementCallback := Intercept (next_stream w) ca (elementCallback context)\<rparr>,
      self\<lparr>cachingQuads := cachingQuads self @ [(quadKey context, next_stream w)]\<rparr>,
      (snd (open_append p w))\<lparr>streams := (streams w)(next_stream w \<mapsto> fst (open_append p w)),
                               next_stream := Suc (next_stream w)\<rparr>)"
proof -
  obtain f w1 where o: "open_append p w = (f, w1)" by (cases "open_append p w")
  from assms have "map_of (cachingQuads self) (quadKey context) = None"
    by (simp add: map_find_def)
  then show ?thesis
    using assms open_append_frame [OF o] o
    by (simp add: wrap_path_def Let_def map_insert_def map_find_def wrap_mesh_def wrap_element_def
        map_add_def)
qed

text \<open>The session \<open>wrap\<close> opens writes to the file its context resolves to.\<close>

lemma wrap_session_path:
  assumes "map_find (cachingQuads self) (quadKey context) = None"
    and "\<not> isCacheHit self (quadKey context) (getFilePath ext self context) w"
    and "wrap ext self ca context w = (context', self', w')"
  shows "map_find (cachingQuads self') (quadKey context) = Some (next_stream w) \<and>
    (\<exists>s. streams w' (next_stream w) = Some s \<and> spath s = getFilePath ext self context)"
proof -
  have "spath (fst (open_append (getFilePath ext self context) w)) = getFilePath ext self context"
    by (simp add: open_append_def)
  with assms show ?thesis
    by (auto simp: wrap_def Let_def wrap_path_new_session map_find_def map_add_def)
qed

lemma wrap_path_existing_session:
  assumes "map_find (cachingQuads self) (quadKey context) = Some a0" and "a0 \<noteq> next_stream w"
  shows "wrap_path self ca context p w =
     (context\<lparr>meshCallback := Intercept (next_stream w) ca (meshCallback context),
              elementCallback := Intercept (next_stream w) ca (elementCallback context)\<rparr>,
      self,
      (snd (open_append p w))\<lparr>streams := (streams w)(next_stream w := None),
                               next_stream := Suc (next_stream w)\<rparr>)"
proof -
  obtain f w1 where o: "open_append p w = (f, w1)" by (cases "open_append p w")
  show ?thesis
    using assms open_append_frame [OF o] o
    by (simp add: wrap_path_def Let_def map_insert_def wrap_mesh_def wrap_element_def
        destroy_stream_def)
qed

text \<open>Every operation keeps the invariant.\<close>

lemma range_erase:
  "distinct (map fst m) \<Longrightarrow> distinct (map snd m) \<Longrightarrow> map_of m k = Some a \<Longrightarrow>
   snd ` set (filter (\<lambda>kv. fst kv \<noteq> k) m) = snd ` set m - {a}"
proof (induction m)
  case Nil
  then show ?case by simp
next
  case (Cons x m)
  show ?case
  proof (cases "fst x = k")
    case True
    with Cons.prems have "snd x = a" and "k \<notin> fst ` set m" and "a \<notin> snd ` set m"
      by (auto simp: rev_image_eqI)
    then have "filter (\<lambda>kv. fst kv \<noteq> k) m = m"
      by (auto simp: filter_id_conv)
    with True \<open>snd x = a\<close> \<open>a \<notin> snd ` set m\<close> show ?thesis by auto
  next
    case False
    with Cons.prems have "map_of m k = Some a" and "snd x \<noteq> a"
      by (auto simp: rev_image_eqI dest: map_of_SomeD)
    with Cons False show ?thesis by auto
  qed
qed

lemma registry_inv_frame:
  "registry_inv self w \<Longrightarrow> dom (streams w') = dom (streams w) \<Longrightarrow>
   next_stream w' = next_stream w \<Longrightarrow> registry_inv self w'"
  by (simp add: registry_inv_def)

lemma registry_inv_wrap:
  assumes "registry_inv self w" and "wrap ext self ca context w = (context', self', w')"
  shows "registry_inv self' w'"
proof (cases "isCacheHit self (quadKey context) (getFilePath ext self context) w")
  case True
  with assms show ?thesis by (simp add: wrap_def)
next
  case False
  from assms(1) have d1: "distinct (map fst (cachingQuads self))"
    and d2: "distinct (map snd (cachingQuads self))"
    and r: "snd ` set (cachingQuads self) = dom (streams w)"
    and b: "\<forall>a \<in> dom (streams w). a < next_stream w"
    by (auto simp: registry_inv_def)
  from b have fresh: "next_stream w \<notin> dom (streams w)" by auto
  show ?thesis
  proof (cases "map_find (cachingQuads self) (quadKey context)")
    case None
    then have k: "quadKey context \<notin> fst ` set (cachingQuads self)"
      by (simp add: map_find_None_iff)
    from assms(2) False have
      "self' = self\<lparr>cachingQuads := cachingQuads self @ [(quadKey context, next_stream w)]\<rparr>"
      and "streams w' =
        (streams w)(next_stream w \<mapsto> fst (open_append (getFilePath ext self context) w))"
      and "next_stream w' = Suc (next_stream w)"
      by (auto simp: wrap_def Let_def wrap_path_new_session [OF None])
    with d1 d2 r b fresh k show ?thesis
      by (auto simp: registry_inv_def less_Suc_eq)
  next
    case (Some a0)
    then have "a0 \<in> snd ` set (cachingQuads self)"
      by (rule map_find_Some_range)
    with r fresh have ne: "a0 \<noteq> next_stream w" by auto
    from assms(2) False have "self' = self"
      and "streams w' = (streams w)(next_stream w := None)"
      and "next_stream w' = Suc (next_stream w)"
      by (auto simp: wrap_def Let_def wrap_path_existing_session [OF Some ne])
    moreover from fresh have "(streams w)(next_stream w := None) = streams w"
      by (auto simp: fun_upd_idem_iff)
    ultimately show ?thesis using d1 d2 r b
      by (auto simp: registry_inv_def less_Suc_eq)
  qed
qed

lemma registry_inv_unwrap:
  assumes "registry_inv self w" and "unwrap ext self context cancelToken w = (self', w')"
  shows "registry_inv self' w'"
proof (cases "map_find (cachingQuads self) (quadKey context)")
  case None
  with assms show ?thesis by (simp add: unwrap_def unwrap_steps_def)
next
  case (Some a)
  define w2 where "w2 = (let w1 = (if stream_good w a then stream_close a w else w)
     in if isCancelled cancelToken 0 then std_remove (getFilePath ext self context) w1 else w1)"
  have s2: "dom (streams w2) = dom (streams w)" and n2: "next_stream w2 = next_stream w"
    by (auto simp: w2_def Let_def stream_close_def std_remove_def split: option.splits)
  have s3: "dom (streams (destroy_stream a w2)) = dom (streams w2) - {a}"
    and n3: "next_stream (destroy_stream a w2) = next_stream w2"
    by (auto simp: destroy_stream_def Let_def split: option.splits)
  from assms(2) Some have
    self': "self' = self\<lparr>cachingQuads := map_erase (cachingQuads self) (quadKey context)\<rparr>"
    and w': "w' = destroy_stream a w2"
    by (auto simp: unwrap_def unwrap_steps_def Let_def w2_def)
  from assms(1) have d1: "distinct (map fst (cachingQuads self))"
    and d2: "distinct (map snd (cachingQuads self))"
    and r: "snd ` set (cachingQuads self) = dom (streams w)"
    and b: "\<forall>a \<in> dom (streams w). a < next_stream w"
    by (auto simp: registry_inv_def)
  have "snd ` set (map_erase (cachingQuads self) (quadKey context)) = dom (streams w) - {a}"
    using range_erase [OF d1 d2 Some [unfolded map_find_def]] r by (simp add: map_erase_def)
  with d1 d2 b s2 n2 s3 n3 show ?thesis
    unfolding self' w'
    by (auto simp: registry_inv_def map_erase_def distinct_map_filter)
qed

lemma registry_inv_fetch:
  assumes "registry_inv self w" and "fetch ext self context cancelToken w = Inr (b, w')"
  shows "registry_inv self w'"
proof (cases "isCacheHit self (quadKey context) (getFilePath ext self context) w")
  case False
  with assms show ?thesis by (simp add: fetch_def)
next
  case True
  obtain buf w1 where o: "open_read (getFilePath ext self context) w = (buf, w1)"
    by (cases "open_read (getFilePath ext self context) w")
  then have f1: "streams w1 = streams w" "next_stream w1 = next_stream w"
    by (auto simp: open_read_def split: if_splits option.splits)
  from assms(2) True o have "readLoop ext context cancelToken 0 buf w1 = Inr w'"
    by (auto simp: fetch_def readCache_def seq_def split: sum.splits)
  from readLoop_frame [OF this] f1 assms(1) show ?thesis
    by (simp add: registry_inv_def)
qed

lemma reachable_inv: "reachable ext self w \<Longrightarrow> registry_inv self w"
proof (induction rule: reachable.induct)
  case (start w directory)
  then show ?case by (simp add: registry_inv_def MeshCacheImpl_new_def)
next
  case (after_wrap self w ca ctx context' self' w')
  then show ?case by (auto intro: registry_inv_wrap)
next
  case (after_unwrap self w ctx cancelToken self' w')
  then show ?case by (auto intro: registry_inv_unwrap)
next
  case (after_fetch self w ctx cancelToken b w')
  then show ?case by (auto intro: registry_inv_fetch)
next
  case (after_mesh self w cb mesh w')
  then show ?case using call_mesh_frame [of ext cb mesh w w'] by (auto intro: registry_inv_frame)
next
  case (after_element self w cb' element w')
  then show ?case
    using call_element_frame [of ext cb' element w w'] by (auto intro: registry_inv_frame)
next
  case (outside self w fs wr L c)
  then show ?case by (simp add: registry_inv_def)
qed

lemma sessions_of_le_1:
  "distinct (map fst (cachingQuads self)) \<Longrightarrow> length (sessions_of self qk) \<le> 1"
proof -
  have "distinct (map fst m) \<Longrightarrow> length (filter (\<lambda>kv. fst kv = qk) m) \<le> 1"
    for m :: "('a \<times> nat) list"
    by (induction m) (auto simp: filter_empty_conv rev_image_eqI)
  then show "distinct (map fst (cachingQuads self)) \<Longrightarrow> length (sessions_of self qk) \<le> 1"
    by (simp add: sessions_of_def)
qed

text \<open>
  C7. In every state the cache can reach, the registry holds at most one session for a
  quadkey, and the streams alive are exactly those the registry holds: no stream outside
  the registry survives an operation. In particular, when \<open>wrap\<close> runs for a quadkey that has
  an entry, its \<^verbatim>\<open>insert\<close> leaves the registry as it is: the entry and its stream are the ones
  from before (the stream \<open>wrap\<close> opened in this case is destroyed when \<open>wrap\<close> returns).
\<close>

theorem one_session_per_quadkey:
  assumes "reachable ext self w"
  shows "length (sessions_of self qk) \<le> 1 \<and>
    set (map snd (cachingQuads self)) = dom (streams w) \<and>
    (map_find (cachingQuads self) (quadKey context) = Some a \<longrightarrow>
       (case wrap ext self ca context w of (context', self', w') \<Rightarrow>
          cachingQuads self' = cachingQuads self \<and> streams w' = streams w \<and>
          map_find (cachingQuads self') (quadKey context) = Some a))"
proof -
  have inv: "registry_inv self w" using assms by (rule reachable_inv)
  then have fresh: "next_stream w \<notin> dom (streams w)"
    by (auto simp: registry_inv_def)
  have 1: "length (sessions_of self qk) \<le> 1"
    using inv sessions_of_le_1 [of self qk] by (simp add: registry_inv_def)
  have 2: "set (map snd (cachingQuads self)) = dom (streams w)"
    using inv by (simp add: registry_inv_def)
  have 3: "case wrap ext self ca context w of (context', self', w') \<Rightarrow>
          cachingQuads self' = cachingQuads self \<and> streams w' = streams w \<and>
          map_find (cachingQuads self') (quadKey context) = Some a"
    if e: "map_find (cachingQuads self) (quadKey context) = Some a"
  proof -
    from e have nh: "\<not> isCacheHit self (quadKey context) (getFilePath ext self context) w"
      by (simp add: isCacheHit_def)
    from inv map_find_Some_range [OF e] have "a \<in> dom (streams w)"
      by (simp add: registry_inv_def)
    with fresh have ne: "a \<noteq> next_stream w" by auto
    from fresh have "(streams w)(next_stream w := None) = streams w"
      by (auto simp: fun_upd_idem_iff)
    with nh e show ?thesis
      by (simp add: wrap_def Let_def wrap_path_existing_session [OF e ne])
  qed
  from 1 2 3 show ?thesis by blast
qed

theorem one_session_per_quadkey_witness:
  "length (sessions_of ex_session_impl (14, ''0123'')) \<le> 1 \<and>
   set (map snd (cachingQuads ex_session_impl)) = dom (streams (ex_session_world [])) \<and>
   (case wrap ex_ext ex_session_impl 0 ex_context (ex_session_world []) of
      (context', self', w') \<Rightarrow>
        cachingQuads self' = cachingQuads ex_session_impl \<and>
        streams w' = streams (ex_session_world []) \<and>
        map_find (cachingQuads self') (quadKey ex_context) = Some 0)"
proof -
  have "reachable ex_ext ex_impl (ex_world Map.empty True)"
    unfolding ex_impl_def by (rule reachable.start) (simp add: ex_world_def)
  then have r: "reachable ex_ext ex_session_impl (ex_session_world [])"
    using ex_wrap by (rule reachable.after_wrap)
  have e: "map_find (cachingQuads ex_session_impl) (quadKey ex_context) = Some 0"
    by (simp add: ex_eval)
  show ?thesis
    using one_session_per_quadkey [OF r, of "(14, ''0123'')" ex_context 0 0] e by simp
qed

subsection \<open>What the interceptor writes\<close>

lemma stream_write_dead: "streams w a = None \<Longrightarrow> stream_write a bs w = Inl UndefinedBehaviour"
  by (simp add: stream_write_def)

lemma stream_write_live:
  "streams w a \<noteq> None \<Longrightarrow>
   \<exists>w'. stream_write a bs w = Inr w' \<and> streams w' a \<noteq> None \<and> live_contexts w' = live_contexts w"
  by (auto simp: stream_write_def Let_def)

text \<open>The identifier field holds the digits of the identifier to the base 256, lowest first.\<close>

lemma id_bytes_digits:
  "map unat (id_bytes i) = map (\<lambda>k. unat i div 256 ^ k mod 256) [0..<8]"
proof -
  have "unat (ucast (drop_bit (8 * k) i) :: byte) = unat i div 256 ^ k mod 256" for k
  proof -
    have "unat (ucast (drop_bit (8 * k) i) :: byte) = drop_bit (8 * k) (unat i) mod 256"
      by (simp add: unsigned_ucast_eq unat_drop_bit_eq take_bit_eq_mod)
    then show ?thesis
      by (simp add: drop_bit_eq_div power_mult)
  qed
  then show ?thesis
    by (simp add: id_bytes_def)
qed

text \<open>
  A wrapped callback called in a session: the record goes to the stream, and the captured
  callback runs in the state that leaves.
\<close>

lemma call_mesh_session:
  assumes o: "is_open s" and g: "good s" and alive: "ca \<in> live_contexts w"
  shows "\<exists>disk' buf'.
     disk' @ buf' = disk @ buf @ MeshType # MeshStream_write ext mesh \<and> prefix disk disk' \<and>
     call_mesh ext (Intercept a ca cb) mesh (session_state w a s disk buf) =
       call_mesh ext cb mesh (session_state w a s disk' buf')"
proof -
  from stream_write_session [OF o g, of disk buf "[MeshType]" a w] obtain d1 b1 where
    e1: "d1 @ b1 = disk @ buf @ [MeshType]" and p1: "prefix disk d1" and
    w1: "stream_write a [MeshType] (session_state w a s disk buf) = Inr (session_state w a s d1 b1)"
    by blast
  from stream_write_session [OF o g, of d1 b1 "MeshStream_write ext mesh" a w] obtain d2 b2 where
    e2: "d2 @ b2 = d1 @ b1 @ MeshStream_write ext mesh" and p2: "prefix d1 d2" and
    w2: "stream_write a (MeshStream_write ext mesh) (session_state w a s d1 b1) =
      Inr (session_state w a s d2 b2)"
    by blast
  have "d2 @ b2 = (d1 @ b1) @ MeshStream_write ext mesh"
    using e2 by simp
  then have "d2 @ b2 = disk @ buf @ MeshType # MeshStream_write ext mesh"
    unfolding e1 by simp
  moreover have "prefix disk d2"
    using p1 p2 by (rule prefix_order.trans)
  moreover have "call_mesh ext (Intercept a ca cb) mesh (session_state w a s disk buf) =
       call_mesh ext cb mesh (session_state w a s d2 b2)"
    using alive by (simp add: w1 w2 seq_def)
  ultimately show ?thesis by blast
qed

lemma call_element_session:
  assumes o: "is_open s" and g: "good s" and alive: "ca \<in> live_contexts w"
  shows "\<exists>disk' buf'.
     disk' @ buf' =
       disk @ buf @ ElementType # id_bytes (elem_id element) @ ElementStream_write ext element \<and>
     prefix disk disk' \<and>
     call_element ext (Intercept a ca cb) element (session_state w a s disk buf) =
       call_element ext cb element (session_state w a s disk' buf')"
proof -
  from stream_write_session [OF o g, of disk buf "[ElementType]" a w] obtain d1 b1 where
    e1: "d1 @ b1 = disk @ buf @ [ElementType]" and p1: "prefix disk d1" and
    w1: "stream_write a [ElementType] (session_state w a s disk buf) =
      Inr (session_state w a s d1 b1)"
    by blast
  from stream_write_session [OF o g, of d1 b1 "id_bytes (elem_id element)" a w] obtain d2 b2 where
    e2: "d2 @ b2 = d1 @ b1 @ id_bytes (elem_id element)" and p2: "prefix d1 d2" and
    w2: "stream_write a (id_bytes (elem_id element)) (session_state w a s d1 b1) =
      Inr (session_state w a s d2 b2)"
    by blast
  from stream_write_session [OF o g, of d2 b2 "ElementStream_write ext element" a w]
  obtain d3 b3 where
    e3: "d3 @ b3 = d2 @ b2 @ ElementStream_write ext element" and p3: "prefix d2 d3" and
    w3: "stream_write a (ElementStream_write ext element) (session_state w a s d2 b2) =
      Inr (session_state w a s d3 b3)"
    by blast
  have "d2 @ b2 = (d1 @ b1) @ id_bytes (elem_id element)"
    using e2 by simp
  then have e2': "d2 @ b2 = disk @ buf @ ElementType # id_bytes (elem_id element)"
    unfolding e1 by simp
  have "d3 @ b3 = (d2 @ b2) @ ElementStream_write ext element"
    using e3 by simp
  then have "d3 @ b3 =
      disk @ buf @ ElementType # id_bytes (elem_id element) @ ElementStream_write ext element"
    unfolding e2' by simp
  moreover have "prefix disk d3"
    using p1 p2 p3 by (blast intro: prefix_order.trans)
  moreover have "call_element ext (Intercept a ca cb) element (session_state w a s disk buf) =
       call_element ext cb element (session_state w a s d3 b3)"
    using alive by (simp add: w1 w2 w3 seq_def)
  ultimately show ?thesis by blast
qed

text \<open>
  The scenario of a session in full, for callbacks of the pipeline that act on the consumer
  and may look at the files: \<open>d1\<close> and \<open>d2\<close> are what the cache file holds on disk when the
  mesh callback and the element callback run.
\<close>

lemma session_records:
  assumes nosess: "map_find (cachingQuads self) (quadKey context) = None"
    and absent: "files w (getFilePath ext self context) = None"
    and wr: "writable w (getFilePath ext self context)"
    and alive: "ca \<in> live_contexts w"
    and cbm: "\<And>v. call_mesh ext (meshCallback context) mesh v =
      Inr (v\<lparr>consumer := F (files v) (consumer v)\<rparr>)"
    and cbe: "\<And>v. call_element ext (elementCallback context) element v =
      Inr (v\<lparr>consumer := G (files v) (consumer v)\<rparr>)"
    and fin: "\<not> isCancelled finalToken 0"
  shows "\<exists>d1 d2.
     prefix d1 (MeshType # MeshStream_write ext mesh) \<and> prefix d1 d2 \<and>
     prefix d2 ((MeshType # MeshStream_write ext mesh) @
                ElementType # id_bytes (elem_id element) @ ElementStream_write ext element) \<and>
     build_session ext self ca context mesh element finalToken w =
       Inr (self\<lparr>cachingQuads :=
              map_erase (cachingQuads self @ [(quadKey context, next_stream w)]) (quadKey context)\<rparr>,
            w\<lparr>files := (files w)(getFilePath ext self context \<mapsto>
                   (MeshType # MeshStream_write ext mesh) @
                   ElementType # id_bytes (elem_id element) @ ElementStream_write ext element),
              streams := (streams w)(next_stream w := None),
              next_stream := Suc (next_stream w),
              consumer := G ((files w)(getFilePath ext self context \<mapsto> d2))
                            (F ((files w)(getFilePath ext self context \<mapsto> d1)) (consumer w))\<rparr>)"
proof -
  let ?p = "getFilePath ext self context"
  let ?a = "next_stream w"
  let ?M = "MeshType # MeshStream_write ext mesh"
  let ?E = "ElementType # id_bytes (elem_id element) @ ElementStream_write ext element"
  define s where "s = \<lparr>spath = ?p, is_open = True, good = True, pending = []\<rparr>"
  define u where "u = w\<lparr>next_stream := Suc ?a\<rparr>"
  define self1 where "self1 = self\<lparr>cachingQuads := cachingQuads self @ [(quadKey context, ?a)]\<rparr>"
  define context' where
    "context' = context\<lparr>meshCallback := Intercept ?a ca (meshCallback context),
                        elementCallback := Intercept ?a ca (elementCallback context)\<rparr>"
  have sp: "spath s = ?p" and so: "is_open s" and sg: "good s"
    by (simp_all add: s_def)
  have miss: "\<not> isCacheHit self (quadKey context) ?p w"
    using absent by (simp add: isCacheHit_def ifstream_good_def)
  have o: "open_append ?p w = (s, w\<lparr>files := (files w)(?p \<mapsto> [])\<rparr>)"
    using wr absent by (simp add: open_append_def s_def)
  have 1: "wrap ext self ca context w = (context', self1, session_state u ?a s [] [])"
    using miss
    by (simp add: wrap_def Let_def wrap_path_new_session [OF nosess] o self1_def context'_def
        session_state_def u_def s_def)
  have au: "ca \<in> live_contexts u"
    using alive by (simp add: u_def)
  from call_mesh_session [OF so sg au, of "[]" "[]" ext mesh ?a "meshCallback context"]
  obtain d1 b1 where e1: "d1 @ b1 = ?M" and
    m: "call_mesh ext (Intercept ?a ca (meshCallback context)) mesh (session_state u ?a s [] []) =
      call_mesh ext (meshCallback context) mesh (session_state u ?a s d1 b1)"
    by auto
  define u2 where "u2 = u\<lparr>consumer := F ((files w)(?p \<mapsto> d1)) (consumer w)\<rparr>"
  have mc: "meshCallback context' = Intercept ?a ca (meshCallback context)"
    and ec: "elementCallback context' = Intercept ?a ca (elementCallback context)"
    by (simp_all add: context'_def)
  have 2: "call_mesh ext (meshCallback context') mesh (session_state u ?a s [] []) =
      Inr (session_state u2 ?a s d1 b1)"
    by (simp only: mc m cbm) (simp add: u2_def sp u_def)
  have au2: "ca \<in> live_contexts u2"
    using alive by (simp add: u2_def u_def)
  from call_element_session [OF so sg au2, of d1 b1 element ext ?a "elementCallback context"]
  obtain d2 b2 where e2: "d2 @ b2 = d1 @ b1 @ ?E" and p2: "prefix d1 d2" and
    e: "call_element ext (Intercept ?a ca (elementCallback context)) element
        (session_state u2 ?a s d1 b1) =
      call_element ext (elementCallback context) element (session_state u2 ?a s d2 b2)"
    by auto
  define u3 where "u3 = u2\<lparr>consumer := G ((files w)(?p \<mapsto> d2)) (consumer u2)\<rparr>"
  have 3: "call_element ext (elementCallback context') element (session_state u2 ?a s d1 b1) =
      Inr (session_state u3 ?a s d2 b2)"
    by (simp only: ec e cbe) (simp add: u3_def u2_def sp u_def)
  have k: "map_find (cachingQuads self1) (quadKey context) = Some ?a"
    using nosess by (simp add: map_find_def map_add_def self1_def)
  have gd: "stream_good (session_state u3 ?a s d2 b2) ?a"
    by (simp add: stream_good_def sg)
  have 4: "unwrap ext self1 context finalToken (session_state u3 ?a s d2 b2) =
      (self1\<lparr>cachingQuads := map_erase (cachingQuads self1) (quadKey context)\<rparr>,
       u3\<lparr>files := (files u3)(spath s \<mapsto> d2 @ b2), streams := (streams u3)(?a := None)\<rparr>)"
    using k fin gd by (simp add: unwrap_eq close_session [OF so])
  have all: "d2 @ b2 = ?M @ ?E"
    using e2 e1 by (metis append_assoc)
  have "build_session ext self ca context mesh element finalToken w =
      Inr (self1\<lparr>cachingQuads := map_erase (cachingQuads self1) (quadKey context)\<rparr>,
       u3\<lparr>files := (files u3)(spath s \<mapsto> d2 @ b2), streams := (streams u3)(?a := None)\<rparr>)"
    by (simp add: build_session_def 1 2 3 4 seq_def)
  also have "self1\<lparr>cachingQuads := map_erase (cachingQuads self1) (quadKey context)\<rparr> =
      self\<lparr>cachingQuads :=
            map_erase (cachingQuads self @ [(quadKey context, next_stream w)]) (quadKey context)\<rparr>"
    by (simp add: self1_def)
  also have "u3\<lparr>files := (files u3)(spath s \<mapsto> d2 @ b2), streams := (streams u3)(?a := None)\<rparr> =
      w\<lparr>files := (files w)(?p \<mapsto> ?M @ ?E),
        streams := (streams w)(?a := None),
        next_stream := Suc ?a,
        consumer := G ((files w)(?p \<mapsto> d2)) (F ((files w)(?p \<mapsto> d1)) (consumer w))\<rparr>"
    unfolding all by (simp add: u3_def u2_def u_def sp)
  finally have b: "build_session ext self ca context mesh element finalToken w =
      Inr (self\<lparr>cachingQuads :=
              map_erase (cachingQuads self @ [(quadKey context, next_stream w)]) (quadKey context)\<rparr>,
           w\<lparr>files := (files w)(?p \<mapsto> ?M @ ?E),
             streams := (streams w)(?a := None),
             next_stream := Suc ?a,
             consumer := G ((files w)(?p \<mapsto> d2)) (F ((files w)(?p \<mapsto> d1)) (consumer w))\<rparr>)" .
  have "prefix d1 ?M"
    using e1 by (metis prefixI)
  moreover have "prefix d2 (?M @ ?E)"
    using all by (metis prefixI)
  ultimately show ?thesis
    using p2 b by blast
qed

text \<open>
  C6, as amended. A wrapped callback called in a session, that is with its stream open and
  good on a file that holds \<open>disk\<close>, and with the caller's context alive, first writes one
  record to the stream and then calls the captured callback with the same value, in the
  state the write left: for a mesh the record is the tag \<open>0x01\<close> and the bytes of the mesh
  codec, for an element the tag \<open>0x00\<close>, the eight bytes of the identifier, lowest first,
  and the bytes of the element codec. The write goes to the stream, not to the disk: in
  the state the captured callback runs in, the record stands behind what the file held and
  what was pending, and of all this the file holds a part \<open>disk'\<close> on disk (at least what
  it held before) and the stream holds the rest \<open>buf'\<close>; how much is on disk is up to the
  stream. The callbacks \<open>wrap\<close> returns on a miss are these: after \<open>wrap\<close>, a mesh and an
  element sent through the callbacks of the returned context, and \<open>unwrap\<close> under a token
  that is not cancelled, the file holds the two records in full, while the callbacks of
  the pipeline ran when the file held \<open>d1\<close>, a part of the first record, and \<open>d2\<close>, a part
  of the two. For an element with the identifier 7 the file holds \<open>01\<close>, the mesh bytes,
  \<open>00 07 00 00 00 00 00 00 00\<close> and the element bytes.
\<close>

theorem interceptor_writes_then_forwards:
  "(streams w a = Some s \<and> is_open s \<and> good s \<and> files w (spath s) = Some disk \<and>
    ca \<in> live_contexts w \<longrightarrow>
      (\<exists>disk' buf'.
         disk' @ buf' = disk @ pending s @ MeshType # MeshStream_write ext mesh \<and>
         prefix disk disk' \<and>
         call_mesh ext (wrap_mesh a ca cb) mesh w =
           call_mesh ext cb mesh
             (w\<lparr>files := (files w)(spath s \<mapsto> disk'),
                streams := (streams w)(a \<mapsto> s\<lparr>pending := buf'\<rparr>)\<rparr>)) \<and>
      (\<exists>disk' buf'.
         disk' @ buf' =
           disk @ pending s @
           ElementType # id_bytes (elem_id element) @ ElementStream_write ext element \<and>
         prefix disk disk' \<and>
         call_element ext (wrap_element a ca cb') element w =
           call_element ext cb' element
             (w\<lparr>files := (files w)(spath s \<mapsto> disk'),
                streams := (streams w)(a \<mapsto> s\<lparr>pending := buf'\<rparr>)\<rparr>))) \<and>
   MeshType = 1 \<and> ElementType = 0 \<and>
   map unat (id_bytes i) = map (\<lambda>k. unat i div 256 ^ k mod 256) [0..<8] \<and>
   (\<not> isCacheHit self (quadKey context) (getFilePath ext self context) v \<and>
    map_find (cachingQuads self) (quadKey context) = None \<and>
    writable v (getFilePath ext self context) \<and> ca \<in> live_contexts v \<and>
    meshCallback context = Observing h \<and> elementCallback context = Observing g \<and>
    \<not> isCancelled finalToken 0 \<longrightarrow>
      (\<exists>self2 v4 d1 d2.
         build_session ext self ca context mesh element finalToken v = Inr (self2, v4) \<and>
         prefix d1 (MeshType # MeshStream_write ext mesh) \<and> prefix d1 d2 \<and>
         prefix d2 (MeshType # MeshStream_write ext mesh @
                    ElementType # id_bytes (elem_id element) @ ElementStream_write ext element) \<and>
         consumer v4 =
           g element ((files v)(getFilePath ext self context \<mapsto> d2))
             (h mesh ((files v)(getFilePath ext self context \<mapsto> d1)) (consumer v)) \<and>
         files v4 (getFilePath ext self context) =
           Some (MeshType # MeshStream_write ext mesh @
                 ElementType # id_bytes (elem_id element) @ ElementStream_write ext element) \<and>
         (elem_id element = 7 \<longrightarrow>
            files v4 (getFilePath ext self context) =
              Some ([1] @ MeshStream_write ext mesh @ [0, 7, 0, 0, 0, 0, 0, 0, 0] @
                    ElementStream_write ext element))))"
proof -
  have in_session: "(\<exists>disk' buf'.
         disk' @ buf' = disk @ pending s @ MeshType # MeshStream_write ext mesh \<and>
         prefix disk disk' \<and>
         call_mesh ext (wrap_mesh a ca cb) mesh w =
           call_mesh ext cb mesh
             (w\<lparr>files := (files w)(spath s \<mapsto> disk'),
                streams := (streams w)(a \<mapsto> s\<lparr>pending := buf'\<rparr>)\<rparr>)) \<and>
      (\<exists>disk' buf'.
         disk' @ buf' =
           disk @ pending s @
           ElementType # id_bytes (elem_id element) @ ElementStream_write ext element \<and>
         prefix disk disk' \<and>
         call_element ext (wrap_element a ca cb') element w =
           call_element ext cb' element
             (w\<lparr>files := (files w)(spath s \<mapsto> disk'),
                streams := (streams w)(a \<mapsto> s\<lparr>pending := buf'\<rparr>)\<rparr>))"
    if h: "streams w a = Some s" "is_open s" "good s" "files w (spath s) = Some disk"
      "ca \<in> live_contexts w"
  proof -
    have w: "session_state w a s disk (pending s) = w"
      using h(1) h(4) by (rule session_state_self)
    note m = call_mesh_session [OF h(2) h(3) h(5), of disk "pending s" ext mesh a cb, unfolded w]
    note e = call_element_session
      [OF h(2) h(3) h(5), of disk "pending s" element ext a cb', unfolded w]
    from m e show ?thesis
      unfolding wrap_mesh_def wrap_element_def session_state_def by (rule conjI)
  qed
  have whole: "\<exists>self2 v4 d1 d2.
         build_session ext self ca context mesh element finalToken v = Inr (self2, v4) \<and>
         prefix d1 (MeshType # MeshStream_write ext mesh) \<and> prefix d1 d2 \<and>
         prefix d2 (MeshType # MeshStream_write ext mesh @
                    ElementType # id_bytes (elem_id element) @ ElementStream_write ext element) \<and>
         consumer v4 =
           g element ((files v)(getFilePath ext self context \<mapsto> d2))
             (h mesh ((files v)(getFilePath ext self context \<mapsto> d1)) (consumer v)) \<and>
         files v4 (getFilePath ext self context) =
           Some (MeshType # MeshStream_write ext mesh @
                 ElementType # id_bytes (elem_id element) @ ElementStream_write ext element) \<and>
         (elem_id element = 7 \<longrightarrow>
            files v4 (getFilePath ext self context) =
              Some ([1] @ MeshStream_write ext mesh @ [0, 7, 0, 0, 0, 0, 0, 0, 0] @
                    ElementStream_write ext element))"
    if miss: "\<not> isCacheHit self (quadKey context) (getFilePath ext self context) v"
      and nosess: "map_find (cachingQuads self) (quadKey context) = None"
      and wr: "writable v (getFilePath ext self context)" and alive: "ca \<in> live_contexts v"
      and cbm: "meshCallback context = Observing h" and cbe: "elementCallback context = Observing g"
      and fin: "\<not> isCancelled finalToken 0"
  proof -
    let ?p = "getFilePath ext self context"
    let ?M = "MeshType # MeshStream_write ext mesh"
    let ?E = "ElementType # id_bytes (elem_id element) @ ElementStream_write ext element"
    from miss nosess have absent: "files v ?p = None"
      by (simp add: isCacheHit_def ifstream_good_def)
    have cm: "call_mesh ext (meshCallback context) mesh x =
        Inr (x\<lparr>consumer := h mesh (files x) (consumer x)\<rparr>)" for x
      by (simp add: cbm)
    have ce: "call_element ext (elementCallback context) element x =
        Inr (x\<lparr>consumer := g element (files x) (consumer x)\<rparr>)" for x
      by (simp add: cbe)
    from session_records
      [where F = "h mesh" and G = "g element", OF nosess absent wr alive cm ce fin]
    obtain d1 d2 where p1: "prefix d1 ?M" and p12: "prefix d1 d2" and p2: "prefix d2 (?M @ ?E)"
      and b: "build_session ext self ca context mesh element finalToken v =
       Inr (self\<lparr>cachingQuads :=
              map_erase (cachingQuads self @ [(quadKey context, next_stream v)]) (quadKey context)\<rparr>,
            v\<lparr>files := (files v)(?p \<mapsto> ?M @ ?E),
              streams := (streams v)(next_stream v := None),
              next_stream := Suc (next_stream v),
              consumer := g element ((files v)(?p \<mapsto> d2)) (h mesh ((files v)(?p \<mapsto> d1)) (consumer v))\<rparr>)"
      by auto
    define v4 where "v4 = v\<lparr>files := (files v)(?p \<mapsto> ?M @ ?E),
              streams := (streams v)(next_stream v := None),
              next_stream := Suc (next_stream v),
              consumer := g element ((files v)(?p \<mapsto> d2)) (h mesh ((files v)(?p \<mapsto> d1)) (consumer v))\<rparr>"
    have c: "consumer v4 =
        g element ((files v)(?p \<mapsto> d2)) (h mesh ((files v)(?p \<mapsto> d1)) (consumer v))"
      by (simp add: v4_def)
    have f: "files v4 ?p = Some (?M @ ?E)"
      by (simp add: v4_def)
    have f7: "files v4 ?p = Some ([1] @ MeshStream_write ext mesh @ [0, 7, 0, 0, 0, 0, 0, 0, 0] @
                    ElementStream_write ext element)" if "elem_id element = 7"
      using that by (simp add: f MeshType_def ElementType_def id_bytes_7)
    from b [folded v4_def] p1 p12 p2 c f f7 show ?thesis
      by (intro exI [of _ v4] exI [of _ d1] exI [of _ d2] exI conjI impI) simp_all
  qed
  have tags: "MeshType = 1" "ElementType = 0"
    by (simp_all add: MeshType_def ElementType_def)
  note parts = in_session [THEN conjunct1] in_session [THEN conjunct2] whole tags
    id_bytes_digits
  show ?thesis
    by (intro conjI impI; (elim conjE)?; (rule parts; assumption))
qed

theorem interceptor_writes_then_forwards_witness:
  "(\<exists>disk' buf'. disk' @ buf' = [1, 5] \<and>
      seen ex_path (call_mesh ex_ext (wrap_mesh 0 0 (meshCallback ex_probe_context)) 5
        (ex_probe_session (\<lambda>p n. p + n))) = Inr ([Some disk'], Some disk')) \<and>
   seen ex_path (call_mesh ex_ext (wrap_mesh 0 0 (meshCallback ex_probe_context)) 5
     (ex_probe_session (\<lambda>p n. p + n))) = Inr ([Some [1, 5]], Some [1, 5]) \<and>
   map unat (id_bytes 7) = [7, 0, 0, 0, 0, 0, 0, 0] \<and>
   (\<exists>self2 v4.
      build_session ex_ext ex_impl 0 ex_probe_context 5 \<lparr>elem_id = 7, payload = 120\<rparr> never
        (ex_probe_world (\<lambda>p n. 0)) = Inr (self2, v4) \<and>
      files v4 ex_path = Some [1, 5, 0, 7, 0, 0, 0, 0, 0, 0, 0, 120])"
proof -
  let ?W = "ex_probe_session (\<lambda>p n. p + n)"
  let ?V = "ex_probe_world (\<lambda>p n. 0)"
  let ?s = "\<lparr>spath = ex_path, is_open = True, good = True, pending = []\<rparr>"
  let ?e = "\<lparr>elem_id = 7, payload = 120 :: byte\<rparr>"
  let ?h = "\<lambda>(m :: byte) (fs :: string \<rightharpoonup> byte list) (log :: ex_probe). log @ [fs ex_path]"
  let ?g = "\<lambda>(e :: byte Element) (fs :: string \<rightharpoonup> byte list) (log :: ex_probe).
    log @ [fs ex_path]"
  note t = interceptor_writes_then_forwards
    [of ?W 0 ?s "[]" 0 ex_ext 5 "meshCallback ex_probe_context" ?e
      "elementCallback ex_probe_context" 7 ex_impl ex_probe_context ?V ?h ?g never]
  have h1: "streams ?W 0 = Some ?s \<and> is_open ?s \<and> good ?s \<and> files ?W (spath ?s) = Some [] \<and>
      0 \<in> live_contexts ?W"
    by (simp add: ex_probe_session_def)
  have h2: "\<not> isCacheHit ex_impl (quadKey ex_probe_context)
        (getFilePath ex_ext ex_impl ex_probe_context) ?V \<and>
      map_find (cachingQuads ex_impl) (quadKey ex_probe_context) = None \<and>
      writable ?V (getFilePath ex_ext ex_impl ex_probe_context) \<and> 0 \<in> live_contexts ?V \<and>
      meshCallback ex_probe_context = Observing ?h \<and>
      elementCallback ex_probe_context = Observing ?g \<and> \<not> isCancelled never 0"
    by (simp add: isCacheHit_def ifstream_good_def ex_probe_world_def ex_impl_def
        MeshCacheImpl_new_def map_find_def ex_probe_context_simps isCancelled_def never_def)
  from t [THEN conjunct1, THEN mp, OF h1, THEN conjunct1] obtain disk' buf' where
    e: "disk' @ buf' = [] @ pending ?s @ MeshType # MeshStream_write ex_ext 5" and
    c: "call_mesh ex_ext (wrap_mesh 0 0 (meshCallback ex_probe_context)) 5 ?W =
      call_mesh ex_ext (meshCallback ex_probe_context) 5
        (?W\<lparr>files := (files ?W)(spath ?s \<mapsto> disk'),
            streams := (streams ?W)(0 \<mapsto> ?s\<lparr>pending := buf'\<rparr>)\<rparr>)"
    by blast
  have 1: "\<exists>disk' buf'. disk' @ buf' = [1, 5] \<and>
      seen ex_path (call_mesh ex_ext (wrap_mesh 0 0 (meshCallback ex_probe_context)) 5 ?W) =
        Inr ([Some disk'], Some disk')"
  proof (intro exI conjI)
    show "disk' @ buf' = [1, 5]"
      using e by (simp add: MeshType_def ex_ext_simps)
    show "seen ex_path (call_mesh ex_ext (wrap_mesh 0 0 (meshCallback ex_probe_context)) 5 ?W) =
        Inr ([Some disk'], Some disk')"
      unfolding c by (simp add: seen_def ex_probe_context_simps ex_probe_session_def)
  qed
  have 2: "seen ex_path (call_mesh ex_ext (wrap_mesh 0 0 (meshCallback ex_probe_context)) 5 ?W) =
      Inr ([Some [1, 5]], Some [1, 5])"
    by (simp add: seen_def ex_probe_context_simps ex_probe_session_def wrap_mesh_def
        stream_write_def write_out_def Let_def seq_def MeshType_def ex_ext_simps)
  have 3: "map unat (id_bytes 7) = [7, 0, 0, 0, 0, 0, 0, 0]"
    using t [THEN conjunct2, THEN conjunct2, THEN conjunct2, THEN conjunct1]
    by (simp add: upt_rec)
  from t [THEN conjunct2, THEN conjunct2, THEN conjunct2, THEN conjunct2, THEN mp, OF h2]
  obtain self2 v4 where
    b: "build_session ex_ext ex_impl 0 ex_probe_context 5 ?e never ?V = Inr (self2, v4)" and
    f: "elem_id ?e = 7 \<longrightarrow> files v4 (getFilePath ex_ext ex_impl ex_probe_context) =
      Some ([1] @ MeshStream_write ex_ext 5 @ [0, 7, 0, 0, 0, 0, 0, 0, 0] @
            ElementStream_write ex_ext ?e)"
    by blast
  from f have "files v4 ex_path = Some [1, 5, 0, 7, 0, 0, 0, 0, 0, 0, 0, 120]"
    by (simp add: ex_impl_def MeshCacheImpl_new_def ex_probe_path ex_ext_simps)
  with b have 4: "\<exists>self2 v4.
      build_session ex_ext ex_impl 0 ex_probe_context 5 ?e never ?V = Inr (self2, v4) \<and>
      files v4 ex_path = Some [1, 5, 0, 7, 0, 0, 0, 0, 0, 0, 0, 120]"
    by blast
  from 1 2 3 4 show ?thesis
    by (intro conjI)
qed

text \<open>
  C6 as it was stated fails: the record is not on disk when the captured callback runs, and
  not when the wrapped callback has returned. With streams that hold what is written to
  them until they are closed, the callback of the pipeline finds the cache file empty when
  it is called with the mesh, and again when it is called with the element, and the file
  is still empty after both; it holds the two records once \<open>unwrap\<close> has closed the stream.
\<close>

theorem interceptor_record_not_on_disk:
  "(case wrap ex_ext ex_impl 0 ex_probe_context (ex_probe_world (\<lambda>p n. 0)) of
      (context', self1, w1) \<Rightarrow>
        seen ex_path (call_mesh ex_ext (meshCallback context') 5 w1)) =
     Inr ([Some []], Some []) \<and>
   (case wrap ex_ext ex_impl 0 ex_probe_context (ex_probe_world (\<lambda>p n. 0)) of
      (context', self1, w1) \<Rightarrow>
        seen ex_path (seq (call_mesh ex_ext (meshCallback context') 5 w1)
          (call_element ex_ext (elementCallback context') \<lparr>elem_id = 7, payload = 120\<rparr>))) =
     Inr ([Some [], Some []], Some []) \<and>
   seen ex_path (map_sum id snd
      (build_session ex_ext ex_impl 0 ex_probe_context 5 \<lparr>elem_id = 7, payload = 120\<rparr> never
         (ex_probe_world (\<lambda>p n. 0)))) =
     Inr ([Some [], Some []], Some [1, 5, 0, 7, 0, 0, 0, 0, 0, 0, 0, 120])"
  unfolding build_session_def ex_probe_wrap prod.case
  by (simp add: seen_def ex_probe_context_simps ex_probe_session_def ex_session_impl_def
      stream_write_def write_out_def Let_def seq_def MeshType_def ElementType_def ex_ext_simps
      id_bytes_7 unwrap_def unwrap_steps_def map_find_def map_erase_def stream_good_def
      stream_close_def destroy_stream_def isCancelled_def never_def)

subsection \<open>The round trip\<close>

text \<open>One turn of the loop of \<open>readCache\<close> on a record.\<close>

lemma readLoop_mesh_record:
  "\<not> isCancelled cancelToken k \<Longrightarrow> MeshStream_read ext rest = (mesh, n) \<Longrightarrow>
   readLoop ext ctx cancelToken k (MeshType # rest) w =
     seq (call_mesh ext (meshCallback ctx) mesh w)
       (\<lambda>w'. readLoop ext ctx cancelToken (Suc k) (drop n rest) w')"
  by (subst readLoop.simps) (simp add: read_tag_def is_space_def MeshType_def)

lemma readLoop_element_record:
  "\<not> isCancelled cancelToken k \<Longrightarrow> ElementStream_read ext i rest = (element, n) \<Longrightarrow>
   readLoop ext ctx cancelToken k (ElementType # id_bytes i @ rest) w =
     seq (call_element ext (elementCallback ctx) element w)
       (\<lambda>w'. readLoop ext ctx cancelToken (Suc k) (drop n rest) w')"
  by (subst readLoop.simps)
    (simp add: read_tag_def is_space_def MeshType_def ElementType_def read_id_id_bytes)

lemma replay_records:
  assumes nosess: "map_find (cachingQuads self) (quadKey context) = None"
    and stored: "files w (getFilePath ext self context) =
      Some ((MeshType # MeshStream_write ext mesh) @
            ElementType # id_bytes (elem_id element) @ ElementStream_write ext element)"
    and wr: "writable w (getFilePath ext self context)"
    and cbm: "meshCallback context = Plain f" and cbe: "elementCallback context = Plain g"
    and codec_m: "\<And>rest. MeshStream_read ext (MeshStream_write ext mesh @ rest) =
      (mesh, length (MeshStream_write ext mesh))"
    and codec_e: "\<And>rest. ElementStream_read ext (elem_id element)
      (ElementStream_write ext element @ rest) = (element, length (ElementStream_write ext element))"
    and tok: "\<not> isCancelled fetchToken 0" "\<not> isCancelled fetchToken 1"
  shows "fetch ext self context fetchToken w =
     Inr (True, w\<lparr>consumer := g element (f mesh (consumer w))\<rparr>)"
proof -
  let ?p = "getFilePath ext self context"
  let ?E = "ElementType # id_bytes (elem_id element) @ ElementStream_write ext element"
  have hit: "isCacheHit self (quadKey context) ?p w"
    using nosess stored by (simp add: isCacheHit_def ifstream_good_def)
  have o: "open_read ?p w = (MeshType # MeshStream_write ext mesh @ ?E, w)"
    using wr stored by (simp add: open_read_def)
  have e: "ElementStream_read ext (elem_id element) (ElementStream_write ext element) =
      (element, length (ElementStream_write ext element))"
    using codec_e [of "[]"] by simp
  have l2: "readLoop ext context fetchToken (Suc (Suc 0)) [] v = Inr v" for v
    by (rule readLoop_end)
  have l1: "readLoop ext context fetchToken (Suc 0) ?E v =
      Inr (v\<lparr>consumer := g element (consumer v)\<rparr>)" for v
    using tok(2) by (simp add: readLoop_element_record [OF _ e] cbe seq_def l2)
  have "readLoop ext context fetchToken 0 (MeshType # MeshStream_write ext mesh @ ?E) w =
      Inr (w\<lparr>consumer := g element (f mesh (consumer w))\<rparr>)"
    using tok(1) by (simp add: readLoop_mesh_record [OF _ codec_m] cbm seq_def l1)
  with hit o show ?thesis
    by (simp add: fetch_def readCache_def seq_def)
qed

text \<open>
  C1, as amended. Take a context whose hit check fails, whose quadkey has no session in the
  registry and whose cache file can be opened for appending; let its callbacks be the
  pipeline's own, and let the context outlive the session. After \<open>wrap\<close>, one mesh and one
  element (of any identifier, 42 included) sent through the callbacks of the returned
  context, and \<open>unwrap\<close> under a token that is not cancelled, the file holds the two
  records, and a \<open>fetch\<close> with the original context under a token that is not cancelled at
  its first two polls returns true and hands the consumer the mesh and then the element,
  each equal to the original whenever the codecs read back what they wrote; nothing else
  of the world changes.
\<close>

theorem round_trip_replays:
  assumes miss: "\<not> isCacheHit self (quadKey context) (getFilePath ext self context) w"
    and nosess: "map_find (cachingQuads self) (quadKey context) = None"
    and wr: "writable w (getFilePath ext self context)"
    and cbm: "meshCallback context = Plain f" and cbe: "elementCallback context = Plain g"
    and alive: "ca \<in> live_contexts w"
    and codec_m: "\<And>rest. MeshStream_read ext (MeshStream_write ext mesh @ rest) =
      (mesh, length (MeshStream_write ext mesh))"
    and codec_e: "\<And>rest. ElementStream_read ext (elem_id element)
      (ElementStream_write ext element @ rest) = (element, length (ElementStream_write ext element))"
    and fin: "\<not> isCancelled finalToken 0"
    and tok: "\<not> isCancelled fetchToken 0" "\<not> isCancelled fetchToken 1"
  shows "\<exists>self2 w4.
     build_session ext self ca context mesh element finalToken w = Inr (self2, w4) \<and>
     consumer w4 = g element (f mesh (consumer w)) \<and>
     files w4 (getFilePath ext self context) =
       Some (MeshType # MeshStream_write ext mesh @
             ElementType # id_bytes (elem_id element) @ ElementStream_write ext element) \<and>
     fetch ext self2 context fetchToken w4 =
       Inr (True, w4\<lparr>consumer := g element (f mesh (consumer w4))\<rparr>) \<and>
     round_trip ext self ca context mesh element finalToken fetchToken w =
       Inr (True, w4\<lparr>consumer := g element (f mesh (consumer w4))\<rparr>)"
proof -
  let ?p = "getFilePath ext self context"
  define self2 where "self2 = self\<lparr>cachingQuads :=
      map_erase (cachingQuads self @ [(quadKey context, next_stream w)]) (quadKey context)\<rparr>"
  define w4 where "w4 = w\<lparr>files := (files w)(?p \<mapsto>
                 (MeshType # MeshStream_write ext mesh) @
                 ElementType # id_bytes (elem_id element) @ ElementStream_write ext element),
            streams := (streams w)(next_stream w := None),
            next_stream := Suc (next_stream w),
            consumer := g element (f mesh (consumer w))\<rparr>"
  from miss nosess have absent: "files w ?p = None"
    by (simp add: isCacheHit_def ifstream_good_def)
  have cm: "call_mesh ext (meshCallback context) mesh x =
      Inr (x\<lparr>consumer := f mesh (consumer x)\<rparr>)" for x
    by (simp add: cbm)
  have ce: "call_element ext (elementCallback context) element x =
      Inr (x\<lparr>consumer := g element (consumer x)\<rparr>)" for x
    by (simp add: cbe)
  have b: "build_session ext self ca context mesh element finalToken w = Inr (self2, w4)"
    using session_records
      [where F = "\<lambda>fs. f mesh" and G = "\<lambda>fs. g element", OF nosess absent wr alive cm ce fin]
    unfolding self2_def w4_def by blast
  have n2: "map_find (cachingQuads self2) (quadKey context) = None"
    by (simp add: self2_def map_find_erase_same)
  have p2: "getFilePath ext self2 context = ?p"
    by (simp add: self2_def)
  have f: "fetch ext self2 context fetchToken w4 =
      Inr (True, w4\<lparr>consumer := g element (f mesh (consumer w4))\<rparr>)"
  proof (rule replay_records [OF n2 _ _ cbm cbe codec_m codec_e tok])
    show "files w4 (getFilePath ext self2 context) =
      Some ((MeshType # MeshStream_write ext mesh) @
            ElementType # id_bytes (elem_id element) @ ElementStream_write ext element)"
      by (simp add: p2 w4_def)
    show "writable w4 (getFilePath ext self2 context)"
      using wr by (simp add: p2 w4_def)
  qed
  have c: "consumer w4 = g element (f mesh (consumer w))"
    by (simp add: w4_def)
  have s: "files w4 ?p = Some (MeshType # MeshStream_write ext mesh @
             ElementType # id_bytes (elem_id element) @ ElementStream_write ext element)"
    by (simp add: w4_def)
  have r: "round_trip ext self ca context mesh element finalToken fetchToken w =
       Inr (True, w4\<lparr>consumer := g element (f mesh (consumer w4))\<rparr>)"
    by (simp add: round_trip_def b seq_def f)
  from b c s f r show ?thesis by blast
qed

theorem round_trip_replays_witness:
  "\<exists>self2 w4.
     build_session ex_ext ex_impl 0 ex_context 5 \<lparr>elem_id = 42, payload = 9\<rparr> never
       (ex_world Map.empty True) = Inr (self2, w4) \<and>
     consumer w4 = [Inl 5, Inr \<lparr>elem_id = 42, payload = 9\<rparr>] \<and>
     files w4 ex_path = Some [1, 5, 0, 42, 0, 0, 0, 0, 0, 0, 0, 9] \<and>
     fetch ex_ext self2 ex_context never w4 =
       Inr (True, w4\<lparr>consumer := consumer w4 @ [Inl 5, Inr \<lparr>elem_id = 42, payload = 9\<rparr>]\<rparr>) \<and>
     round_trip ex_ext ex_impl 0 ex_context 5 \<lparr>elem_id = 42, payload = 9\<rparr> never never
       (ex_world Map.empty True) =
       Inr (True, w4\<lparr>consumer := consumer w4 @ [Inl 5, Inr \<lparr>elem_id = 42, payload = 9\<rparr>]\<rparr>)"
proof -
  let ?e = "\<lparr>elem_id = 42, payload = 9 :: byte\<rparr>"
  let ?w = "ex_world Map.empty True"
  have miss: "\<not> isCacheHit ex_impl (quadKey ex_context) (getFilePath ex_ext ex_impl ex_context) ?w"
    by (simp add: isCacheHit_def ifstream_good_def ex_world_def)
  have nosess: "map_find (cachingQuads ex_impl) (quadKey ex_context) = None"
    by (simp add: ex_eval)
  have wr: "writable ?w (getFilePath ex_ext ex_impl ex_context)"
    by (simp add: ex_world_def)
  have alive: "0 \<in> live_contexts ?w"
    by (simp add: ex_world_def)
  have codec_m: "\<And>rest. MeshStream_read ex_ext (MeshStream_write ex_ext 5 @ rest) =
      (5, length (MeshStream_write ex_ext 5))"
    by (simp add: ex_ext_simps)
  have codec_e: "\<And>rest. ElementStream_read ex_ext (elem_id ?e) (ElementStream_write ex_ext ?e @ rest) =
      (?e, length (ElementStream_write ex_ext ?e))"
    by (simp add: ex_ext_simps)
  have fin: "\<not> isCancelled never 0" and t1: "\<not> isCancelled never 1"
    by (simp_all add: isCancelled_def never_def)
  have i: "id_bytes 42 = [42, 0, 0, 0, 0, 0, 0, 0]"
    by (simp add: id_bytes_def upt_rec)
  show ?thesis
    using round_trip_replays [OF miss nosess wr ex_context_simps(2) ex_context_simps(3) alive
        codec_m codec_e fin fin t1]
    by (simp add: ex_getFilePath ex_ext_simps i MeshType_def ElementType_def ex_world_def)
qed

text \<open>
  C1 as it was stated fails on a miss for which the code caches nothing: when the cache
  file cannot be opened (here no path is writable), the stream is failed, the writes are
  dropped, and the later \<open>fetch\<close> answers false without replaying. It also fails on a miss
  that is due to a session already open for the quadkey: the callbacks of the second
  \<open>wrap\<close> refer to a stream that is destroyed when \<open>wrap\<close> returns.
\<close>

theorem round_trip_counterexample:
  "\<not> isCacheHit ex_impl (quadKey ex_context) (getFilePath ex_ext ex_impl ex_context)
       (ex_world Map.empty False) \<and>
   outcome (round_trip ex_ext ex_impl 0 ex_context 5 \<lparr>elem_id = 42, payload = 9\<rparr> never never
       (ex_world Map.empty False)) = Inr (False, [Inl 5, Inr \<lparr>elem_id = 42, payload = 9\<rparr>]) \<and>
   \<not> isCacheHit ex_session_impl (quadKey ex_context)
       (getFilePath ex_ext ex_session_impl ex_context) (ex_session_world []) \<and>
   outcome (round_trip ex_ext ex_session_impl 0 ex_context 5 \<lparr>elem_id = 42, payload = 9\<rparr> never
       never (ex_session_world [])) = Inl UndefinedBehaviour"
  by (simp add: ex_eval Let_def)

subsection \<open>What the wrapped callbacks refer to\<close>

lemma call_mesh_wrapped_plain:
  "(streams v a \<noteq> None \<and> ca \<in> live_contexts v \<longrightarrow>
      (\<exists>v'. call_mesh ext (Intercept a ca (Plain f)) mesh v = Inr v')) \<and>
   (streams v a = None \<or> ca \<notin> live_contexts v \<longrightarrow>
      call_mesh ext (Intercept a ca (Plain f)) mesh v = Inl UndefinedBehaviour)"
proof (cases "streams v a")
  case None
  then show ?thesis by (simp add: stream_write_dead seq_def)
next
  case (Some s)
  then obtain v1 where w1: "stream_write a [MeshType] v = Inr v1"
    and s1: "streams v1 a \<noteq> None" and l1: "live_contexts v1 = live_contexts v"
    using stream_write_live [of v a "[MeshType]"] by auto
  from s1 obtain v2 where w2: "stream_write a (MeshStream_write ext mesh) v1 = Inr v2"
    and l2: "live_contexts v2 = live_contexts v1"
    using stream_write_live [of v1 a "MeshStream_write ext mesh"] by auto
  from Some w1 w2 l1 l2 show ?thesis by (simp add: seq_def)
qed

lemma call_element_wrapped_plain:
  "(streams v a \<noteq> None \<and> ca \<in> live_contexts v \<longrightarrow>
      (\<exists>v'. call_element ext (Intercept a ca (Plain g)) element v = Inr v')) \<and>
   (streams v a = None \<or> ca \<notin> live_contexts v \<longrightarrow>
      call_element ext (Intercept a ca (Plain g)) element v = Inl UndefinedBehaviour)"
proof (cases "streams v a")
  case None
  then show ?thesis by (simp add: stream_write_dead seq_def)
next
  case (Some s)
  then obtain v1 where w1: "stream_write a [ElementType] v = Inr v1"
    and s1: "streams v1 a \<noteq> None" and l1: "live_contexts v1 = live_contexts v"
    using stream_write_live [of v a "[ElementType]"] by auto
  from s1 obtain v2 where w2: "stream_write a (id_bytes (elem_id element)) v1 = Inr v2"
    and s2: "streams v2 a \<noteq> None" and l2: "live_contexts v2 = live_contexts v1"
    using stream_write_live [of v1 a "id_bytes (elem_id element)"] by auto
  from s2 obtain v3 where w3: "stream_write a (ElementStream_write ext element) v2 = Inr v3"
    and l3: "live_contexts v3 = live_contexts v2"
    using stream_write_live [of v2 a "ElementStream_write ext element"] by auto
  from Some w1 w2 w3 l1 l2 l3 show ?thesis by (simp add: seq_def)
qed

text \<open>
  C9, as amended. The lambdas built by \<open>wrap\<close> hold references, not ownership: to the stream,
  which the registry entry of the session owns, and to the callback of the caller's context.
  When \<open>wrap\<close> opens a session for a quadkey that had none, the registry holds the new
  stream on return, and calling a wrapped callback (over a callback of the pipeline's own)
  in any later state \<open>v\<close> succeeds when the stream is still alive and the caller's context
  is still alive, and is undefined behaviour when either is gone. \<open>unwrap\<close> for the quadkey
  destroys the stream, whatever the token says.
\<close>

theorem wrapped_callbacks_hold_references:
  assumes nosess: "map_find (cachingQuads self) (quadKey context) = None"
    and miss: "\<not> isCacheHit self (quadKey context) (getFilePath ext self context) w"
    and cbm: "meshCallback context = Plain f" and cbe: "elementCallback context = Plain g"
  shows "case wrap ext self ca context w of (context', self', w') \<Rightarrow>
     meshCallback context' = Intercept (next_stream w) ca (Plain f) \<and>
     elementCallback context' = Intercept (next_stream w) ca (Plain g) \<and>
     map_find (cachingQuads self') (quadKey context) = Some (next_stream w) \<and>
     streams w' (next_stream w) \<noteq> None \<and>
     (streams v (next_stream w) \<noteq> None \<and> ca \<in> live_contexts v \<longrightarrow>
        (\<exists>v'. call_mesh ext (meshCallback context') mesh v = Inr v') \<and>
        (\<exists>v'. call_element ext (elementCallback context') element v = Inr v')) \<and>
     (streams v (next_stream w) = None \<or> ca \<notin> live_contexts v \<longrightarrow>
        call_mesh ext (meshCallback context') mesh v = Inl UndefinedBehaviour \<and>
        call_element ext (elementCallback context') element v = Inl UndefinedBehaviour) \<and>
     streams (snd (unwrap ext self' context cancelToken w')) (next_stream w) = None"
proof -
  let ?a = "next_stream w"
  let ?p = "getFilePath ext self context"
  define context' where "context' = context\<lparr>meshCallback := Intercept ?a ca (meshCallback context),
              elementCallback := Intercept ?a ca (elementCallback context)\<rparr>"
  define self' where "self' = self\<lparr>cachingQuads := cachingQuads self @ [(quadKey context, ?a)]\<rparr>"
  define w' where "w' = (snd (open_append ?p w))\<lparr>streams := (streams w)(?a \<mapsto> fst (open_append ?p w)),
                               next_stream := Suc ?a\<rparr>"
  have 1: "wrap ext self ca context w = (context', self', w')"
    using miss
    by (simp add: wrap_def Let_def wrap_path_new_session [OF nosess] context'_def self'_def w'_def)
  have 2: "meshCallback context' = Intercept ?a ca (Plain f)"
    and 3: "elementCallback context' = Intercept ?a ca (Plain g)"
    by (simp_all add: context'_def cbm cbe)
  have 4: "map_find (cachingQuads self') (quadKey context) = Some ?a"
    using nosess by (simp add: self'_def map_find_def map_add_def)
  have 5: "streams w' ?a \<noteq> None"
    by (simp add: w'_def)
  have 6: "streams (snd (unwrap ext self' context cancelToken w')) ?a = None"
    using 4
    by (simp add: unwrap_def unwrap_steps_def Let_def destroy_stream_def std_remove_def)
  have 7: "(streams v ?a \<noteq> None \<and> ca \<in> live_contexts v \<longrightarrow>
           (\<exists>v'. call_mesh ext (meshCallback context') mesh v = Inr v')) \<and>
        (streams v ?a = None \<or> ca \<notin> live_contexts v \<longrightarrow>
           call_mesh ext (meshCallback context') mesh v = Inl UndefinedBehaviour)"
    unfolding 2 by (rule call_mesh_wrapped_plain)
  have 8: "(streams v ?a \<noteq> None \<and> ca \<in> live_contexts v \<longrightarrow>
           (\<exists>v'. call_element ext (elementCallback context') element v = Inr v')) \<and>
        (streams v ?a = None \<or> ca \<notin> live_contexts v \<longrightarrow>
           call_element ext (elementCallback context') element v = Inl UndefinedBehaviour)"
    unfolding 3 by (rule call_element_wrapped_plain)
  from 2 3 4 5 6 7 8 have all: "meshCallback context' = Intercept (next_stream w) ca (Plain f) \<and>
     elementCallback context' = Intercept (next_stream w) ca (Plain g) \<and>
     map_find (cachingQuads self') (quadKey context) = Some (next_stream w) \<and>
     streams w' (next_stream w) \<noteq> None \<and>
     (streams v (next_stream w) \<noteq> None \<and> ca \<in> live_contexts v \<longrightarrow>
        (\<exists>v'. call_mesh ext (meshCallback context') mesh v = Inr v') \<and>
        (\<exists>v'. call_element ext (elementCallback context') element v = Inr v')) \<and>
     (streams v (next_stream w) = None \<or> ca \<notin> live_contexts v \<longrightarrow>
        call_mesh ext (meshCallback context') mesh v = Inl UndefinedBehaviour \<and>
        call_element ext (elementCallback context') element v = Inl UndefinedBehaviour) \<and>
     streams (snd (unwrap ext self' context cancelToken w')) (next_stream w) = None"
    by blast
  show ?thesis unfolding 1 prod.case by (rule all)
qed

theorem wrapped_callbacks_hold_references_witness:
  "(\<exists>v'. call_mesh ex_ext (Intercept 0 0 (Plain (\<lambda>m log. log @ [Inl m]))) 5
       (ex_session_world []) = Inr v') \<and>
   call_mesh ex_ext (Intercept 0 0 (Plain (\<lambda>m log. log @ [Inl m]))) 5
     (snd (unwrap ex_ext ex_session_impl ex_context never (ex_session_world []))) =
     Inl UndefinedBehaviour"
proof -
  have nosess: "map_find (cachingQuads ex_impl) (quadKey ex_context) = None"
    by (simp add: ex_eval)
  have miss: "\<not> isCacheHit ex_impl (quadKey ex_context) (getFilePath ex_ext ex_impl ex_context)
      (ex_world Map.empty True)"
    by (simp add: isCacheHit_def ifstream_good_def ex_world_def)
  note t = wrapped_callbacks_hold_references
    [OF nosess miss ex_context_simps(2) ex_context_simps(3), of 0, unfolded ex_wrap prod.case]
  have n: "next_stream (ex_world Map.empty True) = 0"
    by (simp add: ex_world_def)
  have live: "streams (ex_session_world [] :: ex_log world) 0 \<noteq> None \<and>
      0 \<in> live_contexts (ex_session_world [] :: ex_log world)"
    by (simp add: ex_session_world_def)
  from t [where v = "ex_session_world []" and mesh = 5] live
  have a: "\<exists>v'. call_mesh ex_ext (Intercept 0 0 (Plain (\<lambda>m log. log @ [Inl m]))) 5
       (ex_session_world []) = Inr v'"
    by (simp add: n ex_context_simps del: call_mesh.simps call_element.simps)
  from t [where cancelToken = never]
  have dead: "streams (snd (unwrap ex_ext ex_session_impl ex_context never (ex_session_world []))) 0
      = None"
    by (simp add: n)
  from t [where v = "snd (unwrap ex_ext ex_session_impl ex_context never (ex_session_world []))"
      and mesh = 5] dead
  have b: "call_mesh ex_ext (Intercept 0 0 (Plain (\<lambda>m log. log @ [Inl m]))) 5
     (snd (unwrap ex_ext ex_session_impl ex_context never (ex_session_world []))) =
     Inl UndefinedBehaviour"
    by (simp add: n ex_context_simps del: call_mesh.simps call_element.simps)
  from a b show ?thesis by (rule conjI)
qed

text \<open>
  C9 as it was stated fails: the context \<open>wrap\<close> returned is still there, but after \<open>unwrap\<close>
  its mesh callback refers to a stream that was destroyed; and once the caller's context is
  gone, its element callback refers to a callback that was destroyed.
\<close>

theorem wrapped_callbacks_counterexample:
  "(case wrap ex_ext ex_impl 0 ex_context (ex_world Map.empty True) of
      (context', self', w') \<Rightarrow>
        call_mesh ex_ext (meshCallback context') 5
          (snd (unwrap ex_ext self' ex_context never w'))) = Inl UndefinedBehaviour \<and>
   (case wrap ex_ext ex_impl 0 ex_context (ex_world Map.empty True) of
      (context', self', w') \<Rightarrow>
        call_element ex_ext (elementCallback context') \<lparr>elem_id = 42, payload = 9\<rparr>
          (w'\<lparr>live_contexts := {}\<rparr>)) = Inl UndefinedBehaviour"
  unfolding ex_wrap by (simp add: ex_eval Let_def)

end
